theory Spec2Isabelle
  imports Main "HOL-Library.Word"
begin

section \<open>The ParkPulseCommunity contract: data model\<close>

text \<open>
  The ledger is the Solidity contract \<open>ParkPulseCommunity\<close> (pragma \<open>^0.8.20\<close>).
  Its integers are machine words; arithmetic on them is checked, so an addition or a
  multiplication that leaves the range reverts the transaction. A transaction that
  reverts leaves the storage as it was. Events are not part of the storage and are
  left out.
\<close>

type_synonym u64 = "64 word"
type_synonym u256 = "256 word"
type_synonym address = "160 word"

datatype ProposalStatus = Active | Accepted | Declined

record EnvironmentalData =
  ndviBefore :: u256
  ndviAfter :: u256
  pm25Before :: u256
  pm25After :: u256
  pm25IncreasePercent :: u256
  vegetationLossPercent :: u256

record Demographics =
  children :: u64
  adults :: u64
  seniors :: u64
  totalAffectedPopulation :: u64

record Donation =
  donor :: address
  amount :: u256
  timestamp :: u256

text \<open>The field \<open>id\<close> of the source is \<open>id_field\<close> here (\<open>id\<close> is the identity of HOL).\<close>

record Proposal =
  id_field :: u64
  parkName :: string
  parkId :: string
  description :: string
  endDate :: u256
  status :: ProposalStatus
  yesVotes :: u64
  noVotes :: u64
  environmentalData :: EnvironmentalData
  demographics :: Demographics
  creatorAccountId :: string
  fundingGoal :: u256
  totalFundsRaised :: u256
  fundingEnabled :: bool

text \<open>The storage. A Solidity mapping is total: a key never written reads as zero.\<close>

record state =
  proposals :: "u64 \<Rightarrow> Proposal"
  userVotes :: "u64 \<Rightarrow> address \<Rightarrow> bool"
  hasVoted :: "u64 \<Rightarrow> address \<Rightarrow> bool"
  proposalDonations :: "u64 \<Rightarrow> Donation list"
  userDonationTotal :: "u64 \<Rightarrow> address \<Rightarrow> u256"
  proposalCounter :: u64
  owner :: address

text \<open>
  The state-changing entry points of the contract. Only \<open>donateToProposal\<close> is
  \<open>payable\<close>: every other function reverts when value is sent with the call.
\<close>

datatype call =
    CreateProposal string string string u256 EnvironmentalData Demographics string bool u256
  | Vote u64 bool address
  | UpdateProposalStatus u64
  | ForceCloseProposal u64 ProposalStatus
  | SetFundingGoal u64 u256
  | DonateToProposal u64
  | WithdrawFunds u64 address

datatype outcome = NewProposal u64 | Done | Transferred address u256

text \<open>
  The contract makes one external call, \<open>recipient.call{value: amount}("")\<close> in
  \<open>withdrawFunds\<close>, and does not control what the callee does with it: the callee may
  call back into the contract before it returns. A \<open>reentry\<close> is one such call: its
  sender, the value sent, the function called and, for the external call that this call
  makes in its turn, the calls back and the answer of its callee.
\<close>

datatype reentry = Reentry address u256 call "reentry list" bool

text \<open>
  What a transaction brings with it: \<open>msg.sender\<close>, \<open>msg.value\<close>,
  \<open>block.timestamp\<close>, and the behaviour of the callee of the external call: the calls
  it makes back into the contract, in order, and whether it returns successfully.
\<close>

record env =
  msg_sender :: address
  msg_value :: u256
  block_timestamp :: u256
  callbacks :: "reentry list"
  call_success :: bool

text \<open>One constructor for each \<open>require\<close> message, and the panic of checked arithmetic.\<close>

datatype error =
    OnlyOwner
  | ProposalDoesNotExist
  | ProposalNotActive
  | AlreadyVoted
  | VotingPeriodEnded
  | EmptyParkName
  | EmptyParkId
  | EmptyCreatorAccountId
  | EndDateNotInFuture
  | VotingPeriodNotEnded
  | ProposalMustBeAccepted
  | ProposalNotAccepted
  | FundingNotEnabled
  | MustSendHBAR
  | NoFundsToWithdraw
  | TransferFailed
  | ArithmeticPanic
  | NotPayable

section \<open>Checked arithmetic\<close>

definition checked_add :: "'a::len word \<Rightarrow> 'a word \<Rightarrow> 'a word option" where
  "checked_add a b = (if unat a + unat b < 2 ^ LENGTH('a) then Some (a + b) else None)"

definition checked_mul :: "'a::len word \<Rightarrow> 'a word \<Rightarrow> 'a word option" where
  "checked_mul a b = (if unat a * unat b < 2 ^ LENGTH('a) then Some (a * b) else None)"

section \<open>Modifiers\<close>

definition onlyOwner :: "state \<Rightarrow> env \<Rightarrow> bool" where
  "onlyOwner s e = (msg_sender e = owner s)"

definition proposalExists :: "state \<Rightarrow> u64 \<Rightarrow> bool" where
  "proposalExists s proposalId = (id_field (proposals s proposalId) \<noteq> 0)"

definition proposalActive :: "state \<Rightarrow> u64 \<Rightarrow> bool" where
  "proposalActive s proposalId = (status (proposals s proposalId) = Active)"

definition hasNotVoted :: "state \<Rightarrow> u64 \<Rightarrow> address \<Rightarrow> bool" where
  "hasNotVoted s proposalId voter = (\<not> hasVoted s proposalId voter)"

definition votingPeriodActive :: "state \<Rightarrow> env \<Rightarrow> u64 \<Rightarrow> bool" where
  "votingPeriodActive s e proposalId = (block_timestamp e \<le> endDate (proposals s proposalId))"

section \<open>Constructor\<close>

definition zero_EnvironmentalData :: EnvironmentalData where
  "zero_EnvironmentalData =
     \<lparr>ndviBefore = 0, ndviAfter = 0, pm25Before = 0, pm25After = 0,
      pm25IncreasePercent = 0, vegetationLossPercent = 0\<rparr>"

definition zero_Demographics :: Demographics where
  "zero_Demographics = \<lparr>children = 0, adults = 0, seniors = 0, totalAffectedPopulation = 0\<rparr>"

definition zero_Proposal :: Proposal where
  "zero_Proposal =
     \<lparr>id_field = 0, parkName = [], parkId = [], description = [], endDate = 0,
      status = Active, yesVotes = 0, noVotes = 0,
      environmentalData = zero_EnvironmentalData, demographics = zero_Demographics,
      creatorAccountId = [], fundingGoal = 0, totalFundsRaised = 0, fundingEnabled = False\<rparr>"

definition constructor :: "address \<Rightarrow> state" where
  "constructor deployer =
     \<lparr>proposals = (\<lambda>_. zero_Proposal),
      userVotes = (\<lambda>_ _. False),
      hasVoted = (\<lambda>_ _. False),
      proposalDonations = (\<lambda>_. []),
      userDonationTotal = (\<lambda>_ _. 0),
      proposalCounter = 0,
      owner = deployer\<rparr>"

section \<open>Operations\<close>

text \<open>
  Each operation returns \<open>Inl\<close> of the error when it reverts and \<open>Inr\<close> of the new
  storage (with the returned value, if any) when it succeeds. The checks are in the
  order of the source: the modifiers in the order they are listed, then the
  \<open>require\<close>s of the body.
\<close>

definition createProposal ::
  "state \<Rightarrow> env \<Rightarrow> string \<Rightarrow> string \<Rightarrow> string \<Rightarrow> u256 \<Rightarrow> EnvironmentalData \<Rightarrow> Demographics
     \<Rightarrow> string \<Rightarrow> bool \<Rightarrow> u256 \<Rightarrow> error + (state \<times> u64)" where
  "createProposal s e pName pId descr endD envData demo creator fundraisingEnabled goal =
     (if \<not> length pName > 0 then Inl EmptyParkName
      else if \<not> length pId > 0 then Inl EmptyParkId
      else if \<not> length creator > 0 then Inl EmptyCreatorAccountId
      else if \<not> endD > block_timestamp e then Inl EndDateNotInFuture
      else case checked_add (proposalCounter s) 1 of
        None \<Rightarrow> Inl ArithmeticPanic
      | Some proposalId \<Rightarrow>
          Inr (s\<lparr>proposalCounter := proposalId,
                 proposals := (proposals s)(proposalId :=
                   \<lparr>id_field = proposalId, parkName = pName, parkId = pId,
                    description = descr, endDate = endD, status = Active,
                    yesVotes = 0, noVotes = 0,
                    environmentalData = envData, demographics = demo,
                    creatorAccountId = creator, fundingGoal = goal,
                    totalFundsRaised = 0, fundingEnabled = False\<rparr>)\<rparr>,
               proposalId))"

definition vote :: "state \<Rightarrow> env \<Rightarrow> u64 \<Rightarrow> bool \<Rightarrow> address \<Rightarrow> error + state" where
  "vote s e proposalId voteValue voter =
     (if \<not> proposalExists s proposalId then Inl ProposalDoesNotExist
      else if \<not> proposalActive s proposalId then Inl ProposalNotActive
      else if \<not> hasNotVoted s proposalId voter then Inl AlreadyVoted
      else if \<not> votingPeriodActive s e proposalId then Inl VotingPeriodEnded
      else
        let s1 = s\<lparr>userVotes := (userVotes s)(proposalId := (userVotes s proposalId)(voter := voteValue)),
                   hasVoted := (hasVoted s)(proposalId := (hasVoted s proposalId)(voter := True))\<rparr>;
            p = proposals s1 proposalId
        in if voteValue then
             (case checked_add (yesVotes p) 1 of
                None \<Rightarrow> Inl ArithmeticPanic
              | Some n \<Rightarrow> Inr (s1\<lparr>proposals := (proposals s1)(proposalId := p\<lparr>yesVotes := n\<rparr>)\<rparr>))
           else
             (case checked_add (noVotes p) 1 of
                None \<Rightarrow> Inl ArithmeticPanic
              | Some n \<Rightarrow> Inr (s1\<lparr>proposals := (proposals s1)(proposalId := p\<lparr>noVotes := n\<rparr>)\<rparr>)))"

definition updateProposalStatus :: "state \<Rightarrow> env \<Rightarrow> u64 \<Rightarrow> error + state" where
  "updateProposalStatus s e proposalId =
     (if \<not> onlyOwner s e then Inl OnlyOwner
      else if \<not> proposalExists s proposalId then Inl ProposalDoesNotExist
      else if \<not> proposalActive s proposalId then Inl ProposalNotActive
      else if \<not> block_timestamp e > endDate (proposals s proposalId) then Inl VotingPeriodNotEnded
      else
        let p = proposals s proposalId;
            (newStatus, p1) =
              (if yesVotes p > noVotes p
               then (Accepted, if fundingGoal p > 0 then p\<lparr>fundingEnabled := True\<rparr> else p)
               else (Declined, p))
        in Inr (s\<lparr>proposals := (proposals s)(proposalId := p1\<lparr>status := newStatus\<rparr>)\<rparr>))"

definition forceCloseProposal :: "state \<Rightarrow> env \<Rightarrow> u64 \<Rightarrow> ProposalStatus \<Rightarrow> error + state" where
  "forceCloseProposal s e proposalId newStatus =
     (if \<not> onlyOwner s e then Inl OnlyOwner
      else if \<not> proposalExists s proposalId then Inl ProposalDoesNotExist
      else if \<not> proposalActive s proposalId then Inl ProposalNotActive
      else
        let p1 = (proposals s proposalId)\<lparr>status := newStatus\<rparr>;
            p2 = (if newStatus = Accepted \<and> fundingGoal p1 > 0
                  then p1\<lparr>fundingEnabled := True\<rparr> else p1)
        in Inr (s\<lparr>proposals := (proposals s)(proposalId := p2)\<rparr>))"

definition getTotalProposals :: "state \<Rightarrow> u64" where
  "getTotalProposals s = proposalCounter s"

definition setFundingGoal :: "state \<Rightarrow> env \<Rightarrow> u64 \<Rightarrow> u256 \<Rightarrow> error + state" where
  "setFundingGoal s e proposalId goal =
     (if \<not> onlyOwner s e then Inl OnlyOwner
      else if \<not> proposalExists s proposalId then Inl ProposalDoesNotExist
      else if \<not> status (proposals s proposalId) = Accepted then Inl ProposalMustBeAccepted
      else Inr (s\<lparr>proposals := (proposals s)(proposalId :=
                    (proposals s proposalId)\<lparr>fundingGoal := goal\<rparr>)\<rparr>))"

definition donateToProposal :: "state \<Rightarrow> env \<Rightarrow> u64 \<Rightarrow> error + state" where
  "donateToProposal s e proposalId =
     (if \<not> proposalExists s proposalId then Inl ProposalDoesNotExist
      else if \<not> status (proposals s proposalId) = Accepted then Inl ProposalNotAccepted
      else if \<not> fundingEnabled (proposals s proposalId) then Inl FundingNotEnabled
      else if \<not> msg_value e > 0 then Inl MustSendHBAR
      else
        let ds = proposalDonations s proposalId @
                   [\<lparr>donor = msg_sender e, amount = msg_value e, timestamp = block_timestamp e\<rparr>]
        in case checked_add (userDonationTotal s proposalId (msg_sender e)) (msg_value e) of
             None \<Rightarrow> Inl ArithmeticPanic
           | Some ut \<Rightarrow>
               (case checked_add (totalFundsRaised (proposals s proposalId)) (msg_value e) of
                  None \<Rightarrow> Inl ArithmeticPanic
                | Some tot \<Rightarrow>
                    Inr (s\<lparr>proposalDonations := (proposalDonations s)(proposalId := ds),
                           userDonationTotal := (userDonationTotal s)(proposalId :=
                             (userDonationTotal s proposalId)(msg_sender e := ut)),
                           proposals := (proposals s)(proposalId :=
                             (proposals s proposalId)\<lparr>totalFundsRaised := tot\<rparr>)\<rparr>)))"

definition getDonationProgress :: "state \<Rightarrow> u64 \<Rightarrow> error + (u256 \<times> u256 \<times> u256)" where
  "getDonationProgress s proposalId =
     (if \<not> proposalExists s proposalId then Inl ProposalDoesNotExist
      else
        let raised = totalFundsRaised (proposals s proposalId);
            goal = fundingGoal (proposals s proposalId)
        in if goal > 0 then
             (case checked_mul raised 100 of
                None \<Rightarrow> Inl ArithmeticPanic
              | Some m \<Rightarrow> Inr (raised, goal, m div goal))
           else Inr (raised, goal, 0))"

section \<open>Transactions\<close>

definition no_value :: "error + state \<Rightarrow> error + (state \<times> outcome)" where
  "no_value r = (case r of Inl err \<Rightarrow> Inl err | Inr s \<Rightarrow> Inr (s, Done))"

definition nonpayable :: "env \<Rightarrow> error + 'a \<Rightarrow> error + 'a" where
  "nonpayable e r = (if msg_value e \<noteq> 0 then Inl NotPayable else r)"

text \<open>
  \<open>withdrawFunds\<close> clears the balance first and makes the external call afterwards.
  While the call runs, the callee's calls back into the contract are executed on the
  storage as it is then (\<open>reenter\<close>): each is a call of its own, in the same block, and one
  that reverts leaves the storage as it was and lets the callee go on. When the callee
  fails, \<open>require(success)\<close> reverts the transaction, the calls back included. The second
  component of a successful result is the transfer made (recipient, amount).
\<close>

function withdrawFunds :: "state \<Rightarrow> env \<Rightarrow> u64 \<Rightarrow> address \<Rightarrow> error + (state \<times> address \<times> u256)"
  and exec :: "state \<Rightarrow> env \<Rightarrow> call \<Rightarrow> error + (state \<times> outcome)"
  and reenter :: "state \<Rightarrow> u256 \<Rightarrow> reentry list \<Rightarrow> state" where
  "withdrawFunds s e proposalId recipient =
     (if \<not> onlyOwner s e then Inl OnlyOwner
      else if \<not> proposalExists s proposalId then Inl ProposalDoesNotExist
      else if \<not> totalFundsRaised (proposals s proposalId) > 0 then Inl NoFundsToWithdraw
      else
        let amt = totalFundsRaised (proposals s proposalId);
            s1 = s\<lparr>proposals := (proposals s)(proposalId :=
                     (proposals s proposalId)\<lparr>totalFundsRaised := 0\<rparr>)\<rparr>;
            (success, s2) = (call_success e, reenter s1 (block_timestamp e) (callbacks e))
        in if \<not> success then Inl TransferFailed
           else Inr (s2, recipient, amt))"
| "exec s e (CreateProposal pName pId descr endD envData demo creator fe goal) =
     nonpayable e
       (case createProposal s e pName pId descr endD envData demo creator fe goal of
          Inl err \<Rightarrow> Inl err
        | Inr (s', i) \<Rightarrow> Inr (s', NewProposal i))"
| "exec s e (Vote proposalId voteValue voter) =
     nonpayable e (no_value (vote s e proposalId voteValue voter))"
| "exec s e (UpdateProposalStatus proposalId) =
     nonpayable e (no_value (updateProposalStatus s e proposalId))"
| "exec s e (ForceCloseProposal proposalId newStatus) =
     nonpayable e (no_value (forceCloseProposal s e proposalId newStatus))"
| "exec s e (SetFundingGoal proposalId goal) =
     nonpayable e (no_value (setFundingGoal s e proposalId goal))"
| "exec s e (DonateToProposal proposalId) = no_value (donateToProposal s e proposalId)"
| "exec s e (WithdrawFunds proposalId recipient) =
     nonpayable e
       (case withdrawFunds s e proposalId recipient of
          Inl err \<Rightarrow> Inl err
        | Inr (s', r, a) \<Rightarrow> Inr (s', Transferred r a))"
| "reenter s t [] = s"
| "reenter s t (Reentry a v c ys ok # xs) =
     reenter
       (case exec s \<lparr>msg_sender = a, msg_value = v, block_timestamp = t,
                      callbacks = ys, call_success = ok\<rparr> c of
          Inl _ \<Rightarrow> s
        | Inr (s', _) \<Rightarrow> s')
       t xs"
  by pat_completeness auto

termination
  by (relation "measure (\<lambda>x. case x of
          Inl (s, e, p, r) \<Rightarrow> 3 * size_list size (callbacks e) + 1
        | Inr (Inl (s, e, c)) \<Rightarrow> 3 * size_list size (callbacks e) + 2
        | Inr (Inr (s, t, xs)) \<Rightarrow> 3 * size_list size xs)") auto

declare withdrawFunds.simps [simp del]

text \<open>The storage after a transaction: unchanged when the transaction reverts.\<close>

fun transact :: "state \<Rightarrow> env \<times> call \<Rightarrow> state" where
  "transact s (e, c) = (case exec s e c of Inl _ \<Rightarrow> s | Inr (s', _) \<Rightarrow> s')"

fun run :: "state \<Rightarrow> (env \<times> call) list \<Rightarrow> state" where
  "run s [] = s"
| "run s (t # ts) = run (transact s t) ts"

text \<open>
  The calls that succeeded, in order, each with what it returned. A call that reverts
  leaves no receipt, nor do the calls made back during its transfer. The receipt of a
  withdrawal stands where its balance is cleared; the receipts of the calls made back
  during its transfer follow it.
\<close>

function (sequential)
  call_receipts :: "state \<Rightarrow> env \<Rightarrow> call \<Rightarrow> (env \<times> call \<times> outcome) list"
  and reenter_receipts :: "state \<Rightarrow> u256 \<Rightarrow> reentry list \<Rightarrow> (env \<times> call \<times> outcome) list" where
  "call_receipts s e (WithdrawFunds proposalId recipient) =
     (case exec s e (WithdrawFunds proposalId recipient) of
        Inl _ \<Rightarrow> []
      | Inr (s', out) \<Rightarrow>
          (e, WithdrawFunds proposalId recipient, out) #
            reenter_receipts
              (s\<lparr>proposals := (proposals s)(proposalId :=
                   (proposals s proposalId)\<lparr>totalFundsRaised := 0\<rparr>)\<rparr>)
              (block_timestamp e) (callbacks e))"
| "call_receipts s e c =
     (case exec s e c of Inl _ \<Rightarrow> [] | Inr (s', out) \<Rightarrow> [(e, c, out)])"
| "reenter_receipts s t [] = []"
| "reenter_receipts s t (Reentry a v c ys ok # xs) =
     call_receipts s \<lparr>msg_sender = a, msg_value = v, block_timestamp = t,
                        callbacks = ys, call_success = ok\<rparr> c
       @ reenter_receipts
           (case exec s \<lparr>msg_sender = a, msg_value = v, block_timestamp = t,
                          callbacks = ys, call_success = ok\<rparr> c of
              Inl _ \<Rightarrow> s
            | Inr (s', _) \<Rightarrow> s')
           t xs"
  by pat_completeness auto

termination
  by (relation "measure (\<lambda>x. case x of
          Inl (s, e, c) \<Rightarrow> 2 * size_list size (callbacks e) + 1
        | Inr (s, t, xs) \<Rightarrow> 2 * size_list size xs)") auto

fun receipts :: "state \<Rightarrow> (env \<times> call) list \<Rightarrow> (env \<times> call \<times> outcome) list" where
  "receipts s [] = []"
| "receipts s ((e, c) # ts) = call_receipts s e c @ receipts (transact s (e, c)) ts"

text \<open>
  The storage once a successful call has done its own writes: for a withdrawal, the storage
  at the moment of the external call; for every other call, the storage it ends with.
\<close>

fun own_effect :: "state \<Rightarrow> call \<Rightarrow> state \<Rightarrow> state" where
  "own_effect s (WithdrawFunds proposalId recipient) s' =
     s\<lparr>proposals := (proposals s)(proposalId :=
          (proposals s proposalId)\<lparr>totalFundsRaised := 0\<rparr>)\<rparr>"
| "own_effect s c s' = s'"

section \<open>What a trace shows\<close>

text \<open>
  Read off the receipts of a trace: the identifiers returned by \<open>createProposal\<close>, the
  voters whose \<open>vote\<close> on a proposal succeeded, the donations a proposal received and the
  amounts withdrawn from it.
\<close>

fun created_of :: "env \<times> call \<times> outcome \<Rightarrow> u64 list" where
  "created_of (e, c, NewProposal i) = [i]"
| "created_of (e, c, out) = []"

definition created_ids :: "(env \<times> call \<times> outcome) list \<Rightarrow> u64 list" where
  "created_ids rs = concat (map created_of rs)"

fun voter_of :: "u64 \<Rightarrow> env \<times> call \<times> outcome \<Rightarrow> address list" where
  "voter_of p (e, Vote q b v, out) = (if q = p then [v] else [])"
| "voter_of p (e, c, out) = []"

definition voters :: "u64 \<Rightarrow> (env \<times> call \<times> outcome) list \<Rightarrow> address list" where
  "voters p rs = concat (map (voter_of p) rs)"

fun donation_of :: "u64 \<Rightarrow> env \<times> call \<times> outcome \<Rightarrow> Donation list" where
  "donation_of p (e, DonateToProposal q, out) =
     (if q = p
      then [\<lparr>donor = msg_sender e, amount = msg_value e, timestamp = block_timestamp e\<rparr>]
      else [])"
| "donation_of p (e, c, out) = []"

definition donations :: "u64 \<Rightarrow> (env \<times> call \<times> outcome) list \<Rightarrow> Donation list" where
  "donations p rs = concat (map (donation_of p) rs)"

fun withdrawal_of :: "u64 \<Rightarrow> env \<times> call \<times> outcome \<Rightarrow> u256 list" where
  "withdrawal_of p (e, WithdrawFunds q r, Transferred r' a) = (if q = p then [a] else [])"
| "withdrawal_of p (e, c, out) = []"

definition withdrawals :: "u64 \<Rightarrow> (env \<times> call \<times> outcome) list \<Rightarrow> u256 list" where
  "withdrawals p rs = concat (map (withdrawal_of p) rs)"

definition total :: "u256 list \<Rightarrow> nat" where
  "total xs = sum_list (map unat xs)"

section \<open>Scenarios\<close>

text \<open>\<open>tx\<close> is a transaction whose callee, if any, makes no call back and succeeds.\<close>

definition admin :: address where "admin = 1"
definition alice :: address where "alice = 2"
definition bob :: address where "bob = 3"

definition tx :: "address \<Rightarrow> u256 \<Rightarrow> u256 \<Rightarrow> env" where
  "tx sender val time =
     \<lparr>msg_sender = sender, msg_value = val, block_timestamp = time,
      callbacks = [], call_success = True\<rparr>"

definition park_proposal :: "u256 \<Rightarrow> u256 \<Rightarrow> call" where
  "park_proposal deadline goal =
     CreateProposal ''Central Park'' ''park-1'' ''Plant trees'' deadline
       zero_EnvironmentalData zero_Demographics ''0.0.1001'' False goal"

definition voted_once_trace :: "(env \<times> call) list" where
  "voted_once_trace =
     [(tx alice 0 100, park_proposal 200 1000), (tx alice 0 150, Vote 1 True alice)]"

definition voted_once :: state where
  "voted_once = run (constructor admin) voted_once_trace"

definition tied_trace :: "(env \<times> call) list" where
  "tied_trace =
     voted_once_trace @ [(tx bob 0 160, Vote 1 False bob), (tx admin 0 201, UpdateProposalStatus 1)]"

definition tied :: state where
  "tied = run (constructor admin) tied_trace"

definition funded_trace :: "(env \<times> call) list" where
  "funded_trace =
     [(tx alice 0 100, park_proposal 200 1000), (tx admin 0 110, ForceCloseProposal 1 Accepted),
      (tx alice 400 120, DonateToProposal 1), (tx bob 400 130, DonateToProposal 1)]"

definition funded :: state where
  "funded = run (constructor admin) funded_trace"

text \<open>
  A withdrawal to a recipient, \<open>carol\<close>, that donates the 800 it receives back to the
  proposal before it returns.
\<close>

definition carol :: address where "carol = 4"

definition reentrant_withdrawal :: "env \<times> call" where
  "reentrant_withdrawal =
     ((tx admin 0 140)\<lparr>callbacks := [Reentry carol 800 (DonateToProposal 1) [] True]\<rparr>,
      WithdrawFunds 1 carol)"

definition accepted_without_goal :: state where
  "accepted_without_goal = run (constructor admin)
     [(tx alice 0 100, park_proposal 200 0), (tx admin 0 110, ForceCloseProposal 1 Accepted)]"

definition huge_donation :: state where
  "huge_donation = run (constructor admin)
     [(tx alice 0 100, park_proposal 200 1), (tx admin 0 110, ForceCloseProposal 1 Accepted),
      (tx alice (2 ^ 255) 120, DonateToProposal 1)]"

definition three_created_trace :: "(env \<times> call) list" where
  "three_created_trace =
     [(tx alice 0 100, park_proposal 200 0), (tx bob 0 100, park_proposal 50 0),
      (tx bob 0 101, park_proposal 300 10), (tx alice 0 102, Vote 2 True alice),
      (tx alice 0 103, park_proposal 400 0)]"

section \<open>Traces and successful calls\<close>

lemmas op_defs = constructor_def createProposal_def vote_def updateProposalStatus_def
  forceCloseProposal_def setFundingGoal_def donateToProposal_def withdrawFunds.simps
  no_value_def nonpayable_def
  checked_add_def onlyOwner_def proposalExists_def proposalActive_def
  hasNotVoted_def votingPeriodActive_def zero_Proposal_def

lemmas actor_defs = admin_def alice_def bob_def tx_def park_proposal_def

lemma run_append: "run s (ts @ ts') = run (run s ts) ts'"
  by (induction ts arbitrary: s) simp_all

lemma receipts_append: "receipts s (ts @ ts') = receipts s ts @ receipts (run s ts) ts'"
proof (induction ts arbitrary: s)
  case Nil
  show ?case by simp
next
  case (Cons t ts)
  obtain e c where "t = (e, c)" by (cases t)
  with Cons show ?case by (simp del: transact.simps)
qed

lemma checked_add_one: "checked_add a 1 = Some b \<Longrightarrow> unat b = Suc (unat a)"
  by (auto simp: checked_add_def unat_word_ariths split: if_splits)

lemma checked_add_Some: "checked_add a c = Some b \<Longrightarrow> unat b = unat a + unat c"
  by (auto simp: checked_add_def unat_word_ariths split: if_splits)

lemma createProposal_Inr:
  assumes "createProposal s e pName pId descr endD envData demo creator fe g = Inr (s', i)"
  shows "unat i = Suc (unat (proposalCounter s))"
    and "s' = s\<lparr>proposalCounter := i,
               proposals := (proposals s)(i :=
                 \<lparr>id_field = i, parkName = pName, parkId = pId,
                  description = descr, endDate = endD, status = Active,
                  yesVotes = 0, noVotes = 0,
                  environmentalData = envData, demographics = demo,
                  creatorAccountId = creator, fundingGoal = g,
                  totalFundsRaised = 0, fundingEnabled = False\<rparr>)\<rparr>"
  using assms
  by (auto simp: createProposal_def dest: checked_add_one split: if_splits option.splits)

lemma vote_Inr_yes:
  assumes "vote s e p True v = Inr s'"
  shows "id_field (proposals s p) \<noteq> 0" "status (proposals s p) = Active" "\<not> hasVoted s p v"
    and "\<exists>n. unat n = Suc (unat (yesVotes (proposals s p))) \<and>
      s' = s\<lparr>userVotes := (userVotes s)(p := (userVotes s p)(v := True)),
               hasVoted := (hasVoted s)(p := (hasVoted s p)(v := True)),
               proposals := (proposals s)(p := (proposals s p)\<lparr>yesVotes := n\<rparr>)\<rparr>"
  using assms
  by (auto simp: vote_def Let_def proposalExists_def proposalActive_def hasNotVoted_def
        dest: checked_add_one split: if_splits option.splits)

lemma vote_Inr_no:
  assumes "vote s e p False v = Inr s'"
  shows "id_field (proposals s p) \<noteq> 0" "status (proposals s p) = Active" "\<not> hasVoted s p v"
    and "\<exists>n. unat n = Suc (unat (noVotes (proposals s p))) \<and>
      s' = s\<lparr>userVotes := (userVotes s)(p := (userVotes s p)(v := False)),
               hasVoted := (hasVoted s)(p := (hasVoted s p)(v := True)),
               proposals := (proposals s)(p := (proposals s p)\<lparr>noVotes := n\<rparr>)\<rparr>"
  using assms
  by (auto simp: vote_def Let_def proposalExists_def proposalActive_def hasNotVoted_def
        dest: checked_add_one split: if_splits option.splits)

lemma fundingEnabled_update_same: "fundingEnabled p = b \<Longrightarrow> p\<lparr>fundingEnabled := b\<rparr> = p"
  by (cases p) simp

lemma status_fundingEnabled_commute:
  "p\<lparr>fundingEnabled := b, status := st\<rparr> = p\<lparr>status := st, fundingEnabled := b\<rparr>"
  by (cases p) simp

lemma updateProposalStatus_Inr:
  assumes "updateProposalStatus s e p = Inr s'"
  shows "id_field (proposals s p) \<noteq> 0" "status (proposals s p) = Active"
    and "\<exists>st fe. (fe = fundingEnabled (proposals s p) \<or> (fe \<and> st = Accepted)) \<and>
      s' = s\<lparr>proposals := (proposals s)(p :=
                 (proposals s p)\<lparr>status := st, fundingEnabled := fe\<rparr>)\<rparr>"
proof -
  show "id_field (proposals s p) \<noteq> 0" "status (proposals s p) = Active"
    using assms
    by (auto simp: updateProposalStatus_def proposalExists_def proposalActive_def
          split: if_splits)
  let ?p = "proposals s p"
  let ?st = "if noVotes ?p < yesVotes ?p then Accepted else Declined"
  let ?fe = "if noVotes ?p < yesVotes ?p \<and> 0 < fundingGoal ?p then True else fundingEnabled ?p"
  have "s' = s\<lparr>proposals := (proposals s)(p := ?p\<lparr>status := ?st, fundingEnabled := ?fe\<rparr>)\<rparr>"
    using assms
    by (auto simp: updateProposalStatus_def Let_def fundingEnabled_update_same
          status_fundingEnabled_commute split: if_splits)
  moreover have "?fe = fundingEnabled ?p \<or> (?fe \<and> ?st = Accepted)"
    by simp
  ultimately show "\<exists>st fe. (fe = fundingEnabled ?p \<or> (fe \<and> st = Accepted)) \<and>
      s' = s\<lparr>proposals := (proposals s)(p := ?p\<lparr>status := st, fundingEnabled := fe\<rparr>)\<rparr>"
    by blast
qed

lemma forceCloseProposal_Inr:
  assumes "forceCloseProposal s e p st = Inr s'"
  shows "id_field (proposals s p) \<noteq> 0" "status (proposals s p) = Active"
    and "\<exists>fe. (fe = fundingEnabled (proposals s p) \<or> (fe \<and> st = Accepted)) \<and>
      s' = s\<lparr>proposals := (proposals s)(p :=
                 (proposals s p)\<lparr>status := st, fundingEnabled := fe\<rparr>)\<rparr>"
proof -
  show "id_field (proposals s p) \<noteq> 0" "status (proposals s p) = Active"
    using assms
    by (auto simp: forceCloseProposal_def proposalExists_def proposalActive_def
          split: if_splits)
  let ?p = "proposals s p"
  let ?fe = "if st = Accepted \<and> 0 < fundingGoal ?p then True else fundingEnabled ?p"
  have "s' = s\<lparr>proposals := (proposals s)(p := ?p\<lparr>status := st, fundingEnabled := ?fe\<rparr>)\<rparr>"
    using assms
    by (auto simp: forceCloseProposal_def Let_def fundingEnabled_update_same split: if_splits)
  moreover have "?fe = fundingEnabled ?p \<or> (?fe \<and> st = Accepted)"
    by simp
  ultimately show "\<exists>fe. (fe = fundingEnabled ?p \<or> (fe \<and> st = Accepted)) \<and>
      s' = s\<lparr>proposals := (proposals s)(p := ?p\<lparr>status := st, fundingEnabled := fe\<rparr>)\<rparr>"
    by blast
qed

lemma setFundingGoal_Inr:
  assumes "setFundingGoal s e p g = Inr s'"
  shows "id_field (proposals s p) \<noteq> 0" "status (proposals s p) = Accepted"
    and "s' = s\<lparr>proposals := (proposals s)(p := (proposals s p)\<lparr>fundingGoal := g\<rparr>)\<rparr>"
  using assms
  by (auto simp: setFundingGoal_def proposalExists_def split: if_splits)

lemma donateToProposal_Inr:
  assumes "donateToProposal s e p = Inr s'"
  shows "id_field (proposals s p) \<noteq> 0"
      "status (proposals s p) = Accepted" "fundingEnabled (proposals s p)" "0 < msg_value e"
    and "\<exists>ut tot.
      unat ut = unat (userDonationTotal s p (msg_sender e)) + unat (msg_value e) \<and>
      unat tot = unat (totalFundsRaised (proposals s p)) + unat (msg_value e) \<and>
      s' = s\<lparr>proposalDonations := (proposalDonations s)(p := proposalDonations s p @
                 [\<lparr>donor = msg_sender e, amount = msg_value e, timestamp = block_timestamp e\<rparr>]),
               userDonationTotal := (userDonationTotal s)(p :=
                 (userDonationTotal s p)(msg_sender e := ut)),
               proposals := (proposals s)(p := (proposals s p)\<lparr>totalFundsRaised := tot\<rparr>)\<rparr>"
  using assms
  by (auto simp: donateToProposal_def proposalExists_def Let_def
        dest: checked_add_Some split: if_splits option.splits)

lemma withdrawFunds_Inr:
  assumes "withdrawFunds s e p r = Inr (s', r', a)"
  shows "id_field (proposals s p) \<noteq> 0" "0 < totalFundsRaised (proposals s p)"
    "r' = r" "a = totalFundsRaised (proposals s p)"
    "s' = reenter
            (s\<lparr>proposals := (proposals s)(p := (proposals s p)\<lparr>totalFundsRaised := 0\<rparr>)\<rparr>)
            (block_timestamp e) (callbacks e)"
  using assms
  by (auto simp: withdrawFunds.simps proposalExists_def Let_def split: if_splits)

lemma exec_cases [consumes 1, case_names create vote_yes vote_no resolve goal donate withdraw]:
  assumes "exec s e c = Inr (s', out)"
  obtains
    (create) pName pId descr endD envData demo creator fe g i where
      "c = CreateProposal pName pId descr endD envData demo creator fe g"
      "out = NewProposal i" "unat i = Suc (unat (proposalCounter s))"
      "s' = s\<lparr>proposalCounter := i,
               proposals := (proposals s)(i :=
                 \<lparr>id_field = i, parkName = pName, parkId = pId,
                  description = descr, endDate = endD, status = Active,
                  yesVotes = 0, noVotes = 0,
                  environmentalData = envData, demographics = demo,
                  creatorAccountId = creator, fundingGoal = g,
                  totalFundsRaised = 0, fundingEnabled = False\<rparr>)\<rparr>"
  | (vote_yes) p v n where
      "c = Vote p True v" "out = Done" "id_field (proposals s p) \<noteq> 0"
      "status (proposals s p) = Active" "\<not> hasVoted s p v"
      "unat n = Suc (unat (yesVotes (proposals s p)))"
      "s' = s\<lparr>userVotes := (userVotes s)(p := (userVotes s p)(v := True)),
               hasVoted := (hasVoted s)(p := (hasVoted s p)(v := True)),
               proposals := (proposals s)(p := (proposals s p)\<lparr>yesVotes := n\<rparr>)\<rparr>"
  | (vote_no) p v n where
      "c = Vote p False v" "out = Done" "id_field (proposals s p) \<noteq> 0"
      "status (proposals s p) = Active" "\<not> hasVoted s p v"
      "unat n = Suc (unat (noVotes (proposals s p)))"
      "s' = s\<lparr>userVotes := (userVotes s)(p := (userVotes s p)(v := False)),
               hasVoted := (hasVoted s)(p := (hasVoted s p)(v := True)),
               proposals := (proposals s)(p := (proposals s p)\<lparr>noVotes := n\<rparr>)\<rparr>"
  | (resolve) p st fe where
      "c = UpdateProposalStatus p \<or> c = ForceCloseProposal p st" "out = Done"
      "id_field (proposals s p) \<noteq> 0" "status (proposals s p) = Active"
      "fe = fundingEnabled (proposals s p) \<or> (fe \<and> st = Accepted)"
      "s' = s\<lparr>proposals := (proposals s)(p :=
                 (proposals s p)\<lparr>status := st, fundingEnabled := fe\<rparr>)\<rparr>"
  | (goal) p g where
      "c = SetFundingGoal p g" "out = Done" "id_field (proposals s p) \<noteq> 0"
      "s' = s\<lparr>proposals := (proposals s)(p := (proposals s p)\<lparr>fundingGoal := g\<rparr>)\<rparr>"
  | (donate) p ut tot where
      "c = DonateToProposal p" "out = Done" "id_field (proposals s p) \<noteq> 0"
      "status (proposals s p) = Accepted" "fundingEnabled (proposals s p)" "0 < msg_value e"
      "unat ut = unat (userDonationTotal s p (msg_sender e)) + unat (msg_value e)"
      "unat tot = unat (totalFundsRaised (proposals s p)) + unat (msg_value e)"
      "s' = s\<lparr>proposalDonations := (proposalDonations s)(p := proposalDonations s p @
                 [\<lparr>donor = msg_sender e, amount = msg_value e, timestamp = block_timestamp e\<rparr>]),
               userDonationTotal := (userDonationTotal s)(p :=
                 (userDonationTotal s p)(msg_sender e := ut)),
               proposals := (proposals s)(p := (proposals s p)\<lparr>totalFundsRaised := tot\<rparr>)\<rparr>"
  | (withdraw) p r where
      "c = WithdrawFunds p r" "out = Transferred r (totalFundsRaised (proposals s p))"
      "id_field (proposals s p) \<noteq> 0" "0 < totalFundsRaised (proposals s p)"
      "s' = reenter
              (s\<lparr>proposals := (proposals s)(p := (proposals s p)\<lparr>totalFundsRaised := 0\<rparr>)\<rparr>)
              (block_timestamp e) (callbacks e)"
proof (cases c)
  case (CreateProposal pName pId descr endD envData demo creator fe g)
  with assms obtain i where
    h: "createProposal s e pName pId descr endD envData demo creator fe g = Inr (s', i)"
    and o: "out = NewProposal i"
    by (auto simp: nonpayable_def split: if_splits sum.splits)
  show ?thesis
    by (rule create [OF CreateProposal o createProposal_Inr [OF h]])
next
  case (Vote p b v)
  with assms have v: "vote s e p b v = Inr s'" and o: "out = Done"
    by (auto simp: nonpayable_def no_value_def split: if_splits sum.splits)
  show ?thesis
  proof (cases b)
    case True
    with v have v': "vote s e p True v = Inr s'" by simp
    from vote_Inr_yes(4) [OF v'] obtain n where
      n: "unat n = Suc (unat (yesVotes (proposals s p)))"
      and s': "s' = s\<lparr>userVotes := (userVotes s)(p := (userVotes s p)(v := True)),
               hasVoted := (hasVoted s)(p := (hasVoted s p)(v := True)),
               proposals := (proposals s)(p := (proposals s p)\<lparr>yesVotes := n\<rparr>)\<rparr>"
      by blast
    from Vote True have c: "c = Vote p True v" by simp
    show ?thesis
      by (rule vote_yes [OF c o vote_Inr_yes(1-3) [OF v'] n s'])
  next
    case False
    with v have v': "vote s e p False v = Inr s'" by simp
    from vote_Inr_no(4) [OF v'] obtain n where
      n: "unat n = Suc (unat (noVotes (proposals s p)))"
      and s': "s' = s\<lparr>userVotes := (userVotes s)(p := (userVotes s p)(v := False)),
               hasVoted := (hasVoted s)(p := (hasVoted s p)(v := True)),
               proposals := (proposals s)(p := (proposals s p)\<lparr>noVotes := n\<rparr>)\<rparr>"
      by blast
    from Vote False have c: "c = Vote p False v" by simp
    show ?thesis
      by (rule vote_no [OF c o vote_Inr_no(1-3) [OF v'] n s'])
  qed
next
  case (UpdateProposalStatus p)
  with assms have h: "updateProposalStatus s e p = Inr s'" and o: "out = Done"
    by (auto simp: nonpayable_def no_value_def split: if_splits sum.splits)
  from updateProposalStatus_Inr(3) [OF h] obtain st fe where
    fe: "fe = fundingEnabled (proposals s p) \<or> (fe \<and> st = Accepted)"
    and s': "s' = s\<lparr>proposals := (proposals s)(p :=
                 (proposals s p)\<lparr>status := st, fundingEnabled := fe\<rparr>)\<rparr>"
    by blast
  from UpdateProposalStatus have c: "c = UpdateProposalStatus p \<or> c = ForceCloseProposal p st"
    by simp
  show ?thesis
    by (rule resolve [OF c o updateProposalStatus_Inr(1,2) [OF h] fe s'])
next
  case (ForceCloseProposal p st)
  with assms have h: "forceCloseProposal s e p st = Inr s'" and o: "out = Done"
    by (auto simp: nonpayable_def no_value_def split: if_splits sum.splits)
  from forceCloseProposal_Inr(3) [OF h] obtain fe where
    fe: "fe = fundingEnabled (proposals s p) \<or> (fe \<and> st = Accepted)"
    and s': "s' = s\<lparr>proposals := (proposals s)(p :=
                 (proposals s p)\<lparr>status := st, fundingEnabled := fe\<rparr>)\<rparr>"
    by blast
  from ForceCloseProposal have c: "c = UpdateProposalStatus p \<or> c = ForceCloseProposal p st"
    by simp
  show ?thesis
    by (rule resolve [OF c o forceCloseProposal_Inr(1,2) [OF h] fe s'])
next
  case (SetFundingGoal p g)
  with assms have h: "setFundingGoal s e p g = Inr s'" and o: "out = Done"
    by (auto simp: nonpayable_def no_value_def split: if_splits sum.splits)
  show ?thesis
    by (rule goal [OF SetFundingGoal o setFundingGoal_Inr(1,3) [OF h]])
next
  case (DonateToProposal p)
  with assms have h: "donateToProposal s e p = Inr s'" and o: "out = Done"
    by (auto simp: no_value_def split: sum.splits)
  from donateToProposal_Inr(5) [OF h] obtain ut tot where
    ut: "unat ut = unat (userDonationTotal s p (msg_sender e)) + unat (msg_value e)"
    and tot: "unat tot = unat (totalFundsRaised (proposals s p)) + unat (msg_value e)"
    and s': "s' = s\<lparr>proposalDonations := (proposalDonations s)(p := proposalDonations s p @
                 [\<lparr>donor = msg_sender e, amount = msg_value e, timestamp = block_timestamp e\<rparr>]),
               userDonationTotal := (userDonationTotal s)(p :=
                 (userDonationTotal s p)(msg_sender e := ut)),
               proposals := (proposals s)(p := (proposals s p)\<lparr>totalFundsRaised := tot\<rparr>)\<rparr>"
    by blast
  show ?thesis
    by (rule donate [OF DonateToProposal o donateToProposal_Inr(1-4) [OF h] ut tot s'])
next
  case (WithdrawFunds p r)
  with assms obtain r' a where
    h: "withdrawFunds s e p r = Inr (s', r', a)" and o: "out = Transferred r' a"
    by (auto simp: nonpayable_def split: if_splits sum.splits)
  from o withdrawFunds_Inr(3,4) [OF h]
  have o': "out = Transferred r (totalFundsRaised (proposals s p))" by simp
  show ?thesis
    by (rule withdraw [OF WithdrawFunds o' withdrawFunds_Inr(1,2,5) [OF h]])
qed



section \<open>Invariants of the reachable states\<close>

text \<open>
  A property of the storage and the receipts that every successful call preserves by its
  own writes is preserved by a transaction with all the calls made back during it, hence by
  a trace.
\<close>

lemma own_call_preserves:
  fixes P :: "state \<Rightarrow> (env \<times> call \<times> outcome) list \<Rightarrow> bool"
  assumes step: "\<And>s rs e c s' out.
           P s rs \<Longrightarrow> exec s e c = Inr (s', out) \<Longrightarrow> P (own_effect s c s') (rs @ [(e, c, out)])"
    and "P s rs" and "\<And>s'. own_effect s c s' = s'"
    and "call_receipts s e c
           = (case exec s e c of Inl _ \<Rightarrow> [] | Inr (s', out) \<Rightarrow> [(e, c, out)])"
  shows "P (transact s (e, c)) (rs @ call_receipts s e c)"
proof (cases "exec s e c")
  case (Inl err)
  with assms(2,4) show ?thesis by simp
next
  case (Inr x)
  obtain s' out where "x = (s', out)" by (cases x)
  with Inr have ex: "exec s e c = Inr (s', out)" by simp
  from step [OF assms(2) ex] assms(3,4) ex show ?thesis by simp
qed

lemma nested_calls_preserve:
  fixes P :: "state \<Rightarrow> (env \<times> call \<times> outcome) list \<Rightarrow> bool"
  assumes step: "\<And>s rs e c s' out.
           P s rs \<Longrightarrow> exec s e c = Inr (s', out) \<Longrightarrow> P (own_effect s c s') (rs @ [(e, c, out)])"
  shows "P s rs \<Longrightarrow> P (transact s (e, c)) (rs @ call_receipts s e c)"
    and "P s rs \<Longrightarrow> P (reenter s t xs) (rs @ reenter_receipts s t xs)"
proof (induction s e c and s t xs arbitrary: rs and rs
    rule: call_receipts_reenter_receipts.induct
      [case_names withdraw create vote update force goal donate nil cons])
  case (withdraw s e p r)
  show ?case
  proof (cases "exec s e (WithdrawFunds p r)")
    case (Inl err)
    with withdraw.prems show ?thesis by simp
  next
    case (Inr x)
    obtain s' out where x: "x = (s', out)" by (cases x)
    with Inr have ex: "exec s e (WithdrawFunds p r) = Inr (s', out)" by simp
    let ?s1 = "s\<lparr>proposals := (proposals s)(p := (proposals s p)\<lparr>totalFundsRaised := 0\<rparr>)\<rparr>"
    from ex have s': "s' = reenter ?s1 (block_timestamp e) (callbacks e)"
      by (cases rule: exec_cases) simp_all
    from step [OF withdraw.prems ex] have "P ?s1 (rs @ [(e, WithdrawFunds p r, out)])"
      by simp
    from withdraw.IH [OF ex refl this] s' ex show ?thesis
      by simp
  qed
next
  case (create s e pName pId descr endD envData demo creator fe g)
  then show ?case by (intro own_call_preserves [of P, OF step]) (simp_all del: exec.simps)
next
  case (vote s e p b v)
  then show ?case by (intro own_call_preserves [of P, OF step]) (simp_all del: exec.simps)
next
  case (update s e p)
  then show ?case by (intro own_call_preserves [of P, OF step]) (simp_all del: exec.simps)
next
  case (force s e p st)
  then show ?case by (intro own_call_preserves [of P, OF step]) (simp_all del: exec.simps)
next
  case (goal s e p g)
  then show ?case by (intro own_call_preserves [of P, OF step]) (simp_all del: exec.simps)
next
  case (donate s e p)
  then show ?case by (intro own_call_preserves [of P, OF step]) (simp_all del: exec.simps)
next
  case (nil s t)
  then show ?case by simp
next
  case (cons s t a v c ys ok xs)
  let ?e = "\<lparr>msg_sender = a, msg_value = v, block_timestamp = t,
             callbacks = ys, call_success = ok\<rparr>"
  from cons.IH(1) [OF cons.prems]
  have "P (transact s (?e, c)) (rs @ call_receipts s ?e c)" .
  then have "P (case exec s ?e c of Inl _ \<Rightarrow> s | Inr (s', _) \<Rightarrow> s') (rs @ call_receipts s ?e c)"
    by simp
  from cons.IH(2) [OF this] show ?case
    by simp
qed

lemma trace_induct [consumes 0, case_names init step]:
  fixes P :: "state \<Rightarrow> (env \<times> call \<times> outcome) list \<Rightarrow> bool"
  assumes init: "P s0 []"
    and step: "\<And>s rs e c s' out.
           P s rs \<Longrightarrow> exec s e c = Inr (s', out) \<Longrightarrow> P (own_effect s c s') (rs @ [(e, c, out)])"
  shows "P (run s0 ts) (receipts s0 ts)"
proof -
  have "P s rs \<Longrightarrow> P (run s ts) (rs @ receipts s ts)" for s rs
  proof (induction ts arbitrary: s rs)
    case Nil
    then show ?case by simp
  next
    case (Cons t ts)
    obtain e c where t: "t = (e, c)" by (cases t)
    from nested_calls_preserve(1) [of P, OF step Cons.prems]
    have "P (transact s (e, c)) (rs @ call_receipts s e c)" .
    from Cons.IH [OF this] t show ?case
      by (simp del: transact.simps)
  qed
  from this [OF init] show ?thesis by simp
qed

lemma created_ids_snoc: "created_ids (rs @ [r]) = created_ids rs @ created_of r"
  by (simp add: created_ids_def)

lemma voters_snoc: "voters p (rs @ [r]) = voters p rs @ voter_of p r"
  by (simp add: voters_def)

lemma donations_snoc: "donations p (rs @ [r]) = donations p rs @ donation_of p r"
  by (simp add: donations_def)

lemma withdrawals_snoc: "withdrawals p (rs @ [r]) = withdrawals p rs @ withdrawal_of p r"
  by (simp add: withdrawals_def)

lemmas snoc_simps = voters_snoc donations_snoc withdrawals_snoc

lemma counter_step:
  assumes "unat (proposalCounter s) = length (created_ids rs)
           \<and> map unat (created_ids rs) = [1..<Suc (length (created_ids rs))]"
    and "exec s e c = Inr (s', out)"
  shows "unat (proposalCounter (own_effect s c s')) = length (created_ids (rs @ [(e, c, out)]))
         \<and> map unat (created_ids (rs @ [(e, c, out)]))
             = [1..<Suc (length (created_ids (rs @ [(e, c, out)])))]"
  using assms(2,1)
  by (cases rule: exec_cases) (auto simp: created_ids_snoc)

lemma counter_counts:
  "unat (proposalCounter (run (constructor d) ts)) = length (created_ids (receipts (constructor d) ts))
   \<and> map unat (created_ids (receipts (constructor d) ts))
       = [1..<Suc (length (created_ids (receipts (constructor d) ts)))]"
proof (induction rule: trace_induct)
  case init
  show ?case by (simp add: constructor_def created_ids_def)
next
  case (step s rs e c s' out)
  then show ?case by (rule counter_step)
qed

lemma untouched_step:
  assumes "\<forall>p. proposalCounter s < p \<longrightarrow>
             id_field (proposals s p) = 0 \<and> voters p rs = [] \<and> donations p rs = []
             \<and> withdrawals p rs = []"
    and "exec s e c = Inr (s', out)"
  shows "\<forall>p. proposalCounter (own_effect s c s') < p \<longrightarrow>
             id_field (proposals (own_effect s c s') p) = 0 \<and> voters p (rs @ [(e, c, out)]) = []
             \<and> donations p (rs @ [(e, c, out)]) = []
             \<and> withdrawals p (rs @ [(e, c, out)]) = []"
  using assms(2,1)
proof (cases rule: exec_cases)
  case (create pName pId descr endD envData demo creator fe g i)
  then have "proposalCounter s < i"
    by (simp add: word_less_nat_alt)
  with create assms(1) show ?thesis
    by (auto simp: snoc_simps)
qed (auto simp: snoc_simps)

lemma untouched:
  "\<forall>p. proposalCounter (run (constructor d) ts) < p \<longrightarrow>
        id_field (proposals (run (constructor d) ts) p) = 0
      \<and> voters p (receipts (constructor d) ts) = []
      \<and> donations p (receipts (constructor d) ts) = []
      \<and> withdrawals p (receipts (constructor d) ts) = []"
proof (induction rule: trace_induct)
  case init
  show ?case
    by (simp add: constructor_def zero_Proposal_def voters_def donations_def withdrawals_def)
next
  case (step s rs e c s' out)
  then show ?case by (rule untouched_step)
qed

lemma funding_step:
  assumes "\<forall>p. fundingEnabled (proposals s p) \<longrightarrow> status (proposals s p) = Accepted"
    and "exec s e c = Inr (s', out)"
  shows "\<forall>p. fundingEnabled (proposals (own_effect s c s') p)
              \<longrightarrow> status (proposals (own_effect s c s') p) = Accepted"
  using assms(2,1)
  by (cases rule: exec_cases) auto

lemma funding_only_when_accepted:
  "\<forall>p. fundingEnabled (proposals (run (constructor d) ts) p)
        \<longrightarrow> status (proposals (run (constructor d) ts) p) = Accepted"
proof (induction rule: trace_induct [where P = "\<lambda>s rs. \<forall>p. fundingEnabled (proposals s p) \<longrightarrow> status (proposals s p) = Accepted"])
  case init
  show ?case
    by (simp add: constructor_def zero_Proposal_def)
next
  case (step s rs e c s' out)
  then show ?case by (rule funding_step)
qed

lemma tally_step:
  assumes inv: "\<forall>p. set (voters p rs) = {v. hasVoted s p v} \<and> distinct (voters p rs)
             \<and> unat (yesVotes (proposals s p)) + unat (noVotes (proposals s p))
                 = length (voters p rs)"
    and fresh: "\<forall>p. proposalCounter s < p \<longrightarrow> voters p rs = []"
    and ex: "exec s e c = Inr (s', out)"
  shows "\<forall>p. set (voters p (rs @ [(e, c, out)])) = {v. hasVoted (own_effect s c s') p v}
             \<and> distinct (voters p (rs @ [(e, c, out)]))
             \<and> unat (yesVotes (proposals (own_effect s c s') p))
                 + unat (noVotes (proposals (own_effect s c s') p))
                 = length (voters p (rs @ [(e, c, out)]))"
  using ex
proof (cases rule: exec_cases)
  case (create pName pId descr endD envData demo creator fe g i)
  then have "proposalCounter s < i"
    by (simp add: word_less_nat_alt)
  with fresh have "voters i rs = []" by simp
  with create inv show ?thesis
    by (auto simp: snoc_simps)
next
  case (vote_yes p v n)
  with inv show ?thesis
    by (auto simp: snoc_simps)
next
  case (vote_no p v n)
  with inv show ?thesis
    by (auto simp: snoc_simps)
qed (use inv in \<open>auto simp: snoc_simps\<close>)

lemma tally_counts_voters:
  "\<forall>p. set (voters p (receipts (constructor d) ts)) = {v. hasVoted (run (constructor d) ts) p v}
      \<and> distinct (voters p (receipts (constructor d) ts))
      \<and> unat (yesVotes (proposals (run (constructor d) ts) p))
          + unat (noVotes (proposals (run (constructor d) ts) p))
          = length (voters p (receipts (constructor d) ts))"
proof -
  let ?fresh = "\<lambda>s rs. \<forall>p. proposalCounter s < p \<longrightarrow>
             id_field (proposals s p) = 0 \<and> voters p rs = [] \<and> donations p rs = []
             \<and> withdrawals p rs = []"
  let ?tally = "\<lambda>s rs. \<forall>p. set (voters p rs) = {v. hasVoted s p v} \<and> distinct (voters p rs)
             \<and> unat (yesVotes (proposals s p)) + unat (noVotes (proposals s p))
                 = length (voters p rs)"
  have "?fresh (run (constructor d) ts) (receipts (constructor d) ts)
        \<and> ?tally (run (constructor d) ts) (receipts (constructor d) ts)"
  proof (induction rule: trace_induct [where P = "\<lambda>s rs. ?fresh s rs \<and> ?tally s rs"])
    case init
    show ?case
      by (simp add: constructor_def zero_Proposal_def voters_def donations_def withdrawals_def)
  next
    case (step s rs e c s' out)
    from step have f: "?fresh s rs" and t: "?tally s rs" by blast+
    from f have "\<forall>p. proposalCounter s < p \<longrightarrow> voters p rs = []" by blast
    from tally_step [OF t this step(2)] untouched_step [OF f step(2)]
    show ?case by blast
  qed
  then show ?thesis by blast
qed

lemma frozen_step:
  assumes "id_field (proposals s p) \<noteq> 0" and "status (proposals s p) \<noteq> Active"
    and fresh: "\<forall>q. proposalCounter s < q \<longrightarrow> id_field (proposals s q) = 0"
    and ex: "exec s e c = Inr (s', out)"
  shows "id_field (proposals (own_effect s c s') p) = id_field (proposals s p)
       \<and> status (proposals (own_effect s c s') p) = status (proposals s p)
       \<and> yesVotes (proposals (own_effect s c s') p) = yesVotes (proposals s p)
       \<and> noVotes (proposals (own_effect s c s') p) = noVotes (proposals s p)
       \<and> voter_of p (e, c, out) = []"
  using ex
proof (cases rule: exec_cases)
  case (create pName pId descr endD envData demo creator fe g i)
  then have "proposalCounter s < i"
    by (simp add: word_less_nat_alt)
  with fresh assms(1) have "i \<noteq> p" by auto
  with create show ?thesis by simp
qed (use assms(1,2) in auto)

lemma fresh_step:
  assumes "\<forall>q. proposalCounter s < q \<longrightarrow> id_field (proposals s q) = 0"
    and "exec s e c = Inr (s', out)"
  shows "\<forall>q. proposalCounter (own_effect s c s') < q
              \<longrightarrow> id_field (proposals (own_effect s c s') q) = 0"
  using untouched_step [where rs = "[]", OF _ assms(2)] assms(1)
  by (simp add: voters_def donations_def withdrawals_def)

lemma frozen_run:
  assumes ex: "id_field (proposals s p) \<noteq> 0" and na: "status (proposals s p) \<noteq> Active"
    and fresh: "\<forall>q. proposalCounter s < q \<longrightarrow> id_field (proposals s q) = 0"
  shows "status (proposals (run s ts) p) = status (proposals s p)
       \<and> yesVotes (proposals (run s ts) p) = yesVotes (proposals s p)
       \<and> noVotes (proposals (run s ts) p) = noVotes (proposals s p)
       \<and> voters p (receipts s ts) = []"
proof -
  let ?P = "\<lambda>s' rs. id_field (proposals s' p) = id_field (proposals s p)
       \<and> status (proposals s' p) = status (proposals s p)
       \<and> yesVotes (proposals s' p) = yesVotes (proposals s p)
       \<and> noVotes (proposals s' p) = noVotes (proposals s p)
       \<and> (\<forall>q. proposalCounter s' < q \<longrightarrow> id_field (proposals s' q) = 0)
       \<and> voters p rs = []"
  have "?P (run s ts) (receipts s ts)"
  proof (induction rule: trace_induct [where P = ?P])
    case init
    from fresh show ?case by (simp add: voters_def)
  next
    case (step s1 rs e c s' out)
    from step(1) ex na have a: "id_field (proposals s1 p) \<noteq> 0"
      and b: "status (proposals s1 p) \<noteq> Active"
      and f: "\<forall>q. proposalCounter s1 < q \<longrightarrow> id_field (proposals s1 q) = 0"
      by simp_all
    from frozen_step [OF a b f step(2)] fresh_step [OF f step(2)] step(1)
    show ?case by (simp add: voters_snoc)
  qed
  then show ?thesis by blast
qed

lemma total_simps:
  "total [] = 0" "total (x # xs) = unat x + total xs" "total (xs @ ys) = total xs + total ys"
  by (simp_all add: total_def)

lemma donation_step:
  assumes inv: "\<forall>p. proposalDonations s p = donations p rs
             \<and> (\<forall>d. unat (userDonationTotal s p d)
                     = total (map amount (filter (\<lambda>x. donor x = d) (donations p rs))))
             \<and> unat (totalFundsRaised (proposals s p)) + total (withdrawals p rs)
                 = total (map amount (donations p rs))"
    and fresh: "\<forall>p. proposalCounter s < p \<longrightarrow> donations p rs = [] \<and> withdrawals p rs = []"
    and ex: "exec s e c = Inr (s', out)"
  shows "\<forall>p. proposalDonations (own_effect s c s') p = donations p (rs @ [(e, c, out)])
             \<and> (\<forall>d. unat (userDonationTotal (own_effect s c s') p d)
                     = total (map amount (filter (\<lambda>x. donor x = d) (donations p (rs @ [(e, c, out)])))))
             \<and> unat (totalFundsRaised (proposals (own_effect s c s') p))
                 + total (withdrawals p (rs @ [(e, c, out)]))
                 = total (map amount (donations p (rs @ [(e, c, out)])))"
  using ex
proof (cases rule: exec_cases)
  case (create pName pId descr endD envData demo creator fe g i)
  then have "proposalCounter s < i"
    by (simp add: word_less_nat_alt)
  with fresh have "donations i rs = []" "withdrawals i rs = []" by simp_all
  with create inv show ?thesis
    by (auto simp: snoc_simps total_simps)
next
  case (donate p ut tot)
  with inv show ?thesis
    by (auto simp: snoc_simps total_simps)
next
  case (withdraw p r)
  from inv have "total (withdrawals p rs) + unat (totalFundsRaised (proposals s p))
                 = total (map amount (donations p rs))"
    by (simp add: add.commute)
  with withdraw inv show ?thesis
    by (auto simp: snoc_simps total_simps)
qed (use inv in \<open>auto simp: snoc_simps\<close>)

lemma donations_accounted:
  "\<forall>p. proposalDonations (run (constructor a) ts) p = donations p (receipts (constructor a) ts)
      \<and> (\<forall>d. unat (userDonationTotal (run (constructor a) ts) p d)
             = total (map amount (filter (\<lambda>x. donor x = d) (donations p (receipts (constructor a) ts)))))
      \<and> unat (totalFundsRaised (proposals (run (constructor a) ts) p))
           + total (withdrawals p (receipts (constructor a) ts))
          = total (map amount (donations p (receipts (constructor a) ts)))"
proof -
  let ?fresh = "\<lambda>s rs. \<forall>p. proposalCounter s < p \<longrightarrow>
             id_field (proposals s p) = 0 \<and> voters p rs = [] \<and> donations p rs = []
             \<and> withdrawals p rs = []"
  let ?acc = "\<lambda>s rs. \<forall>p. proposalDonations s p = donations p rs
             \<and> (\<forall>d. unat (userDonationTotal s p d)
                     = total (map amount (filter (\<lambda>x. donor x = d) (donations p rs))))
             \<and> unat (totalFundsRaised (proposals s p)) + total (withdrawals p rs)
                 = total (map amount (donations p rs))"
  have "?fresh (run (constructor a) ts) (receipts (constructor a) ts)
        \<and> ?acc (run (constructor a) ts) (receipts (constructor a) ts)"
  proof (induction rule: trace_induct [where P = "\<lambda>s rs. ?fresh s rs \<and> ?acc s rs"])
    case init
    show ?case
      by (simp add: constructor_def zero_Proposal_def voters_def donations_def withdrawals_def
          total_simps)
  next
    case (step s rs e c s' out)
    from step have f: "?fresh s rs" and t: "?acc s rs" by blast+
    from f have "\<forall>p. proposalCounter s < p \<longrightarrow> donations p rs = [] \<and> withdrawals p rs = []"
      by blast
    from donation_step [OF t this step(2)] untouched_step [OF f step(2)]
    show ?case by blast
  qed
  then show ?thesis by blast
qed

section \<open>The scenarios, evaluated\<close>

lemma voted_once_facts:
  "owner voted_once = admin" "id_field (proposals voted_once 1) = 1"
  "status (proposals voted_once 1) = Active" "endDate (proposals voted_once 1) = 200"
  "yesVotes (proposals voted_once 1) = 1" "noVotes (proposals voted_once 1) = 0"
  "fundingGoal (proposals voted_once 1) = 1000" "hasVoted voted_once 1 alice"
  "\<not> hasVoted voted_once 1 bob" "\<not> fundingEnabled (proposals voted_once 1)"
  "id_field (proposals voted_once 7) = 0"
  by (simp_all add: op_defs actor_defs voted_once_trace_def voted_once_def)

lemma tied_facts:
  "owner tied = admin" "id_field (proposals tied 1) = 1"
  "status (proposals tied 1) = Declined"
  "yesVotes (proposals tied 1) = 1" "noVotes (proposals tied 1) = 1"
  "hasVoted tied 1 alice" "hasVoted tied 1 bob" "\<not> fundingEnabled (proposals tied 1)"
  "voters 1 (receipts (constructor admin) tied_trace) = [alice, bob]"
  by (simp_all add: op_defs actor_defs voted_once_trace_def tied_trace_def tied_def voters_def)

lemma funded_facts:
  "owner funded = admin" "id_field (proposals funded 1) = 1"
  "status (proposals funded 1) = Accepted" "fundingEnabled (proposals funded 1)"
  "fundingGoal (proposals funded 1) = 1000" "totalFundsRaised (proposals funded 1) = 800"
  "proposalDonations funded 1 =
     [\<lparr>donor = alice, amount = 400, timestamp = 120\<rparr>, \<lparr>donor = bob, amount = 400, timestamp = 130\<rparr>]"
  "userDonationTotal funded 1 alice = 400"
  "donations 1 (receipts (constructor admin) funded_trace) =
     [\<lparr>donor = alice, amount = 400, timestamp = 120\<rparr>, \<lparr>donor = bob, amount = 400, timestamp = 130\<rparr>]"
  "withdrawals 1 (receipts (constructor admin) funded_trace) = []"
  by (simp_all add: op_defs actor_defs funded_trace_def funded_def donations_def
      withdrawals_def)

lemma accepted_without_goal_facts:
  "owner accepted_without_goal = admin" "id_field (proposals accepted_without_goal 1) = 1"
  "status (proposals accepted_without_goal 1) = Accepted"
  "\<not> fundingEnabled (proposals accepted_without_goal 1)"
  "fundingGoal (proposals accepted_without_goal 1) = 0"
  "totalFundsRaised (proposals accepted_without_goal 1) = 0"
  by (simp_all add: op_defs actor_defs accepted_without_goal_def)

lemma huge_donation_facts:
  "id_field (proposals huge_donation 1) = 1"
  "fundingGoal (proposals huge_donation 1) = 1"
  "totalFundsRaised (proposals huge_donation 1) = 2 ^ 255"
  by (simp_all add: op_defs actor_defs huge_donation_def)

lemma three_created_facts:
  "created_ids (receipts (constructor admin) three_created_trace) = [1, 2, 3]"
  "getTotalProposals (run (constructor admin) three_created_trace) = 3"
  by (simp_all add: op_defs actor_defs three_created_trace_def getTotalProposals_def
      created_ids_def)

lemma strictly_increasing:
  assumes "map unat (ids :: u64 list) = [1..<Suc n]"
  shows "sorted_wrt (<) ids \<and> distinct ids"
proof -
  have "sorted_wrt (<) (map unat ids)" "distinct (map unat ids)"
    unfolding assms by (rule sorted_wrt_upt, rule distinct_upt)
  then show ?thesis
    by (simp add: sorted_wrt_map distinct_map flip: word_less_nat_alt)
qed

lemma status_update_same: "status p = st \<Longrightarrow> p\<lparr>status := st\<rparr> = p"
  by (cases p) simp

section \<open>Withdrawal\<close>

text \<open>
  Claim C1 says that a withdrawal leaves \<open>totalFundsRaised\<close> at 0 and that a second
  withdrawal right after it fails. \<open>withdrawFunds\<close> clears the balance before it calls the
  recipient, and the recipient may donate to the proposal before it returns: with 800
  raised and a recipient that donates the 800 back, the withdrawal transfers 800 and ends
  with \<open>totalFundsRaised = 800\<close> and a third donation on the list, and the second
  withdrawal succeeds and transfers 800 again.
\<close>

theorem withdrawFunds_reentered:
  "msg_sender (fst reentrant_withdrawal) = owner funded
   \<and> id_field (proposals funded 1) \<noteq> 0
   \<and> totalFundsRaised (proposals funded 1) = 800
   \<and> call_success (fst reentrant_withdrawal)
   \<and> map_sum id snd (withdrawFunds funded (fst reentrant_withdrawal) 1 carol) = Inr (carol, 800)
   \<and> totalFundsRaised (proposals (transact funded reentrant_withdrawal) 1) = 800
   \<and> length (proposalDonations (transact funded reentrant_withdrawal) 1) = 3
   \<and> map_sum id snd
        (withdrawFunds (transact funded reentrant_withdrawal) (tx admin 0 141) 1 carol)
       = Inr (carol, 800)"
  by (simp add: op_defs actor_defs carol_def funded_trace_def funded_def
      reentrant_withdrawal_def Let_def)

text \<open>
  Claim C1, amended. When the owner withdraws from an existing proposal whose
  \<open>totalFundsRaised\<close> is positive and the external transfer succeeds, the amount sent to
  the recipient is the \<open>totalFundsRaised\<close> read before the call, and the balance is
  cleared before the transfer: the call ends with the storage that the recipient's calls
  back, made during the transfer, leave from the cleared one. When the recipient makes no
  call back, that is the cleared storage itself (nothing else is changed):
  \<open>totalFundsRaised\<close> is 0, and a second withdrawal is rejected (\<open>No funds to withdraw\<close>)
  and changes nothing. If the transfer fails, the call reverts with \<open>Transfer failed\<close>
  and the storage, the balance included, is what it was before the call.
\<close>

theorem withdrawFunds_all_or_nothing:
  assumes "msg_sender e = owner s"
    and "id_field (proposals s p) \<noteq> 0"
    and "0 < totalFundsRaised (proposals s p)"
  shows "(call_success e \<longrightarrow>
           (\<exists>s'. withdrawFunds s e p r = Inr (s', r, totalFundsRaised (proposals s p))
              \<and> s' = reenter
                        (s\<lparr>proposals := (proposals s)(p :=
                             (proposals s p)\<lparr>totalFundsRaised := 0\<rparr>)\<rparr>)
                        (block_timestamp e) (callbacks e)
              \<and> (msg_value e = 0 \<longrightarrow>
                    exec s e (WithdrawFunds p r)
                      = Inr (s', Transferred r (totalFundsRaised (proposals s p))))
              \<and> (callbacks e = [] \<longrightarrow>
                    s' = s\<lparr>proposals := (proposals s)(p :=
                              (proposals s p)\<lparr>totalFundsRaised := 0\<rparr>)\<rparr>
                  \<and> totalFundsRaised (proposals s' p) = 0
                  \<and> (\<forall>e' r'. msg_sender e' = owner s' \<longrightarrow>
                         withdrawFunds s' e' p r' = Inl NoFundsToWithdraw)
                  \<and> (\<forall>e' r'. \<exists>err. exec s' e' (WithdrawFunds p r') = Inl err)
                  \<and> (\<forall>e' r'. transact s' (e', WithdrawFunds p r') = s'))))
       \<and> (\<not> call_success e \<longrightarrow>
             withdrawFunds s e p r = Inl TransferFailed
           \<and> (\<exists>err. exec s e (WithdrawFunds p r) = Inl err)
           \<and> transact s (e, WithdrawFunds p r) = s)"
  using assms
  by (simp add: withdrawFunds.simps onlyOwner_def proposalExists_def nonpayable_def Let_def)

text \<open>
  The scenario of the specification: two donations of 400, then a withdrawal of 800 to a
  recipient that makes no call back; and the same withdrawal with a failing transfer.
\<close>

theorem withdrawFunds_all_or_nothing_witness:
  "msg_sender (tx admin 0 140) = owner funded
   \<and> id_field (proposals funded 1) \<noteq> 0
   \<and> 0 < totalFundsRaised (proposals funded 1)
   \<and> call_success (tx admin 0 140)
   \<and> msg_value (tx admin 0 140) = 0
   \<and> callbacks (tx admin 0 140) = []
   \<and> (\<exists>s'. withdrawFunds funded (tx admin 0 140) 1 bob = Inr (s', bob, 800)
         \<and> exec funded (tx admin 0 140) (WithdrawFunds 1 bob) = Inr (s', Transferred bob 800)
         \<and> totalFundsRaised (proposals s' 1) = 0
         \<and> withdrawFunds s' (tx admin 0 141) 1 bob = Inl NoFundsToWithdraw
         \<and> transact s' (tx admin 0 141, WithdrawFunds 1 bob) = s')
   \<and> \<not> call_success ((tx admin 0 140)\<lparr>call_success := False\<rparr>)
   \<and> withdrawFunds funded ((tx admin 0 140)\<lparr>call_success := False\<rparr>) 1 bob = Inl TransferFailed
   \<and> transact funded ((tx admin 0 140)\<lparr>call_success := False\<rparr>, WithdrawFunds 1 bob) = funded
   \<and> totalFundsRaised
        (proposals (transact funded ((tx admin 0 140)\<lparr>call_success := False\<rparr>, WithdrawFunds 1 bob)) 1)
       = 800"
proof -
  have h1: "msg_sender (tx admin 0 140) = owner funded"
    and h1': "msg_sender ((tx admin 0 140)\<lparr>call_success := False\<rparr>) = owner funded"
    by (simp_all add: funded_facts tx_def)
  have h2: "id_field (proposals funded 1) \<noteq> 0"
    by (simp add: funded_facts)
  have h3: "0 < totalFundsRaised (proposals funded 1)"
    by (simp add: funded_facts)
  have ok: "call_success (tx admin 0 140)" "msg_value (tx admin 0 140) = 0"
    "callbacks (tx admin 0 140) = []"
    and ko: "\<not> call_success ((tx admin 0 140)\<lparr>call_success := False\<rparr>)"
    by (simp_all add: tx_def)
  from withdrawFunds_all_or_nothing [OF h1 h2 h3, of bob] ok
  obtain s' where a: "withdrawFunds funded (tx admin 0 140) 1 bob
                        = Inr (s', bob, totalFundsRaised (proposals funded 1))"
    and x: "exec funded (tx admin 0 140) (WithdrawFunds 1 bob)
              = Inr (s', Transferred bob (totalFundsRaised (proposals funded 1)))"
    and s': "s' = funded\<lparr>proposals := (proposals funded)(1 :=
                     (proposals funded 1)\<lparr>totalFundsRaised := 0\<rparr>)\<rparr>"
    and b: "totalFundsRaised (proposals s' 1) = 0"
    and c: "\<forall>e' r'. msg_sender e' = owner s' \<longrightarrow> withdrawFunds s' e' 1 r' = Inl NoFundsToWithdraw"
    and d: "\<forall>e' r'. transact s' (e', WithdrawFunds 1 r') = s'"
    by blast
  from s' have "owner s' = admin"
    by (simp add: funded_facts)
  with c have c': "withdrawFunds s' (tx admin 0 141) 1 bob = Inl NoFundsToWithdraw"
    by (simp add: tx_def)
  from d have d': "transact s' (tx admin 0 141, WithdrawFunds 1 bob) = s'"
    by blast
  from withdrawFunds_all_or_nothing [OF h1' h2 h3, of bob] ko
  have f: "withdrawFunds funded ((tx admin 0 140)\<lparr>call_success := False\<rparr>) 1 bob = Inl TransferFailed"
    and g: "transact funded ((tx admin 0 140)\<lparr>call_success := False\<rparr>, WithdrawFunds 1 bob) = funded"
    by blast+
  from h1 h2 h3 ok ko a x b c' d' f g show ?thesis
    by (auto simp add: funded_facts simp del: transact.simps exec.simps)
qed

section \<open>Setting the goal after acceptance\<close>

text \<open>
  Claim C2 says that \<open>setFundingGoal\<close> with a positive amount on an accepted proposal
  enables funding. The code only overwrites \<open>fundingGoal\<close>: on a proposal accepted
  with goal 0, the goal becomes 1000 and \<open>fundingEnabled\<close> stays false, so the next
  donation is rejected with \<open>Funding not enabled\<close>.
\<close>

theorem setFundingGoal_leaves_funding_disabled:
  "status (proposals accepted_without_goal 1) = Accepted
   \<and> (\<exists>s'. setFundingGoal accepted_without_goal (tx admin 0 120) 1 1000 = Inr s'
         \<and> fundingGoal (proposals s' 1) = 1000
         \<and> status (proposals s' 1) = Accepted
         \<and> \<not> fundingEnabled (proposals s' 1)
         \<and> donateToProposal s' (tx alice 400 130) 1 = Inl FundingNotEnabled)"
  by (simp add: accepted_without_goal_facts setFundingGoal_def donateToProposal_def
      onlyOwner_def proposalExists_def tx_def)

section \<open>Resolution at the deadline\<close>

text \<open>
  Claim C3. On an existing, active proposal whose deadline is strictly in the past,
  \<open>updateProposalStatus\<close> is rejected for every caller but the owner; for the owner it
  succeeds and sets the status to \<open>Accepted\<close> when \<open>yesVotes > noVotes\<close> and to
  \<open>Declined\<close> otherwise (a tie is declined), and it sets \<open>fundingEnabled\<close> exactly
  when the outcome is \<open>Accepted\<close> and \<open>fundingGoal > 0\<close>.
\<close>

theorem updateProposalStatus_decides:
  assumes "id_field (proposals s p) \<noteq> 0"
    and "status (proposals s p) = Active"
    and "endDate (proposals s p) < block_timestamp e"
  shows "(msg_sender e \<noteq> owner s \<longrightarrow> updateProposalStatus s e p = Inl OnlyOwner)
       \<and> (msg_sender e = owner s \<longrightarrow>
            (\<exists>s'. updateProposalStatus s e p = Inr s'
               \<and> status (proposals s' p) =
                   (if noVotes (proposals s p) < yesVotes (proposals s p) then Accepted else Declined)
               \<and> (yesVotes (proposals s p) = noVotes (proposals s p)
                    \<longrightarrow> status (proposals s' p) = Declined)
               \<and> fundingEnabled (proposals s' p) =
                   (if noVotes (proposals s p) < yesVotes (proposals s p)
                       \<and> 0 < fundingGoal (proposals s p)
                    then True else fundingEnabled (proposals s p))))"
  using assms
  by (auto simp add: updateProposalStatus_def onlyOwner_def proposalExists_def
      proposalActive_def Let_def)

text \<open>One yes vote, no no vote, goal 1000, resolved one second after the deadline.\<close>

theorem updateProposalStatus_decides_witness:
  "id_field (proposals voted_once 1) \<noteq> 0
   \<and> status (proposals voted_once 1) = Active
   \<and> endDate (proposals voted_once 1) < block_timestamp (tx admin 0 201)
   \<and> msg_sender (tx admin 0 201) = owner voted_once
   \<and> (\<exists>s'. updateProposalStatus voted_once (tx admin 0 201) 1 = Inr s'
         \<and> status (proposals s' 1) = Accepted \<and> fundingEnabled (proposals s' 1))
   \<and> msg_sender (tx bob 0 201) \<noteq> owner voted_once
   \<and> updateProposalStatus voted_once (tx bob 0 201) 1 = Inl OnlyOwner"
proof -
  have h1: "id_field (proposals voted_once 1) \<noteq> 0"
    by (simp add: voted_once_facts)
  have h2: "status (proposals voted_once 1) = Active"
    by (simp add: voted_once_facts)
  have h3: "endDate (proposals voted_once 1) < block_timestamp (tx admin 0 201)"
    and h3': "endDate (proposals voted_once 1) < block_timestamp (tx bob 0 201)"
    by (simp_all add: voted_once_facts tx_def)
  have h4: "msg_sender (tx admin 0 201) = owner voted_once"
    and h4': "msg_sender (tx bob 0 201) \<noteq> owner voted_once"
    by (simp_all add: voted_once_facts tx_def admin_def bob_def)
  show ?thesis
    using h1 h2 h3 h4 h4' updateProposalStatus_decides [OF h1 h2 h3]
      updateProposalStatus_decides [OF h1 h2 h3']
    by (auto simp add: voted_once_facts)
qed

section \<open>The order of the checks of a vote\<close>

text \<open>
  Claim C4. \<open>vote\<close> checks, in this order, that the proposal exists, that it is active,
  that the voter has not voted on it, and that the time is at or before the deadline; the
  first check that fails gives the error, whatever the later ones would say. So an active
  proposal past its deadline, voted on by someone who already voted, answers
  \<open>User has already voted\<close> and not \<open>Voting period has ended\<close>. When all four checks
  pass, the call fails with none of these four errors.
\<close>

theorem vote_first_failure_wins:
  "(id_field (proposals s p) = 0 \<longrightarrow> vote s e p b v = Inl ProposalDoesNotExist)
   \<and> (id_field (proposals s p) \<noteq> 0 \<and> status (proposals s p) \<noteq> Active
        \<longrightarrow> vote s e p b v = Inl ProposalNotActive)
   \<and> (id_field (proposals s p) \<noteq> 0 \<and> status (proposals s p) = Active \<and> hasVoted s p v
        \<longrightarrow> vote s e p b v = Inl AlreadyVoted)
   \<and> (id_field (proposals s p) \<noteq> 0 \<and> status (proposals s p) = Active \<and> \<not> hasVoted s p v
        \<and> endDate (proposals s p) < block_timestamp e
        \<longrightarrow> vote s e p b v = Inl VotingPeriodEnded)
   \<and> (id_field (proposals s p) \<noteq> 0 \<and> status (proposals s p) = Active \<and> \<not> hasVoted s p v
        \<and> block_timestamp e \<le> endDate (proposals s p)
        \<longrightarrow> vote s e p b v \<notin> {Inl ProposalDoesNotExist, Inl ProposalNotActive,
                                Inl AlreadyVoted, Inl VotingPeriodEnded})"
  by (simp add: vote_def proposalExists_def proposalActive_def hasNotVoted_def
      votingPeriodActive_def Let_def not_le split: option.splits)

text \<open>
  One call for each check: an unknown proposal; a resolved proposal, voted on again after the
  deadline; the example of the claim; a new voter after the deadline; a new voter at the
  deadline.
\<close>

theorem vote_first_failure_wins_witness:
  "id_field (proposals voted_once 7) = 0
   \<and> vote voted_once (tx alice 0 300) 7 True alice = Inl ProposalDoesNotExist
   \<and> id_field (proposals tied 1) \<noteq> 0 \<and> status (proposals tied 1) \<noteq> Active
   \<and> hasVoted tied 1 alice
   \<and> vote tied (tx alice 0 300) 1 True alice = Inl ProposalNotActive
   \<and> id_field (proposals voted_once 1) \<noteq> 0 \<and> status (proposals voted_once 1) = Active
   \<and> hasVoted voted_once 1 alice
   \<and> endDate (proposals voted_once 1) < block_timestamp (tx alice 0 300)
   \<and> vote voted_once (tx alice 0 300) 1 False alice = Inl AlreadyVoted
   \<and> \<not> hasVoted voted_once 1 bob
   \<and> vote voted_once (tx bob 0 300) 1 True bob = Inl VotingPeriodEnded
   \<and> block_timestamp (tx bob 0 200) \<le> endDate (proposals voted_once 1)
   \<and> vote voted_once (tx bob 0 200) 1 True bob
        \<notin> {Inl ProposalDoesNotExist, Inl ProposalNotActive, Inl AlreadyVoted, Inl VotingPeriodEnded}"
  using vote_first_failure_wins [of voted_once 7 "tx alice 0 300" True alice]
    vote_first_failure_wins [of tied 1 "tx alice 0 300" True alice]
    vote_first_failure_wins [of voted_once 1 "tx alice 0 300" False alice]
    vote_first_failure_wins [of voted_once 1 "tx bob 0 300" True bob]
    vote_first_failure_wins [of voted_once 1 "tx bob 0 200" True bob]
  by (simp add: voted_once_facts tied_facts tx_def)

section \<open>Funding and status\<close>

text \<open>
  Claim C5. In every state the contract can reach from its deployment, by any transactions
  of any callers, and for every proposal: an active proposal has \<open>fundingEnabled = false\<close>,
  and a proposal with \<open>fundingEnabled = true\<close> is accepted.
\<close>

theorem funding_status_invariant:
  "(status (proposals (run (constructor d) ts) p) = Active
      \<longrightarrow> \<not> fundingEnabled (proposals (run (constructor d) ts) p))
   \<and> (fundingEnabled (proposals (run (constructor d) ts) p)
      \<longrightarrow> status (proposals (run (constructor d) ts) p) = Accepted)"
  using funding_only_when_accepted [of d ts] by auto

text \<open>An active proposal without funding, and an accepted one with funding.\<close>

theorem funding_status_invariant_witness:
  "status (proposals (run (constructor admin) voted_once_trace) 1) = Active
   \<and> \<not> fundingEnabled (proposals (run (constructor admin) voted_once_trace) 1)
   \<and> fundingEnabled (proposals (run (constructor admin) funded_trace) 1)
   \<and> status (proposals (run (constructor admin) funded_trace) 1) = Accepted"
proof -
  have a: "status (proposals (run (constructor admin) voted_once_trace) 1) = Active"
    using voted_once_facts by (simp add: voted_once_def)
  have b: "fundingEnabled (proposals (run (constructor admin) funded_trace) 1)"
    using funded_facts by (simp add: funded_def)
  from a b funding_status_invariant [of admin voted_once_trace 1]
    funding_status_invariant [of admin funded_trace 1]
  show ?thesis by blast
qed

section \<open>Tallies and voters\<close>

text \<open>
  Claim C6. In every reachable state and for every proposal, \<open>yesVotes + noVotes\<close> is the
  number of distinct voters whose \<open>vote\<close> on that proposal succeeded (no voter succeeds
  twice, and the voters that succeeded are those flagged in \<open>hasVoted\<close>). Once an existing
  proposal is no longer active, every \<open>vote\<close> on it is rejected, and whatever transactions
  follow, no vote on it succeeds and its tallies and its status stay as they are.
\<close>

theorem tallies_count_distinct_voters:
  "unat (yesVotes (proposals (run (constructor d) ts) p))
     + unat (noVotes (proposals (run (constructor d) ts) p))
     = card (set (voters p (receipts (constructor d) ts)))
   \<and> distinct (voters p (receipts (constructor d) ts))
   \<and> set (voters p (receipts (constructor d) ts)) = {v. hasVoted (run (constructor d) ts) p v}
   \<and> (id_field (proposals (run (constructor d) ts) p) \<noteq> 0
        \<and> status (proposals (run (constructor d) ts) p) \<noteq> Active \<longrightarrow>
          (\<forall>e b v. vote (run (constructor d) ts) e p b v = Inl ProposalNotActive)
        \<and> (\<forall>ts'. voters p (receipts (run (constructor d) ts) ts') = []
               \<and> yesVotes (proposals (run (run (constructor d) ts) ts') p)
                   = yesVotes (proposals (run (constructor d) ts) p)
               \<and> noVotes (proposals (run (run (constructor d) ts) ts') p)
                   = noVotes (proposals (run (constructor d) ts) p)
               \<and> status (proposals (run (run (constructor d) ts) ts') p)
                   = status (proposals (run (constructor d) ts) p)))"
proof -
  let ?s = "run (constructor d) ts"
  let ?rs = "receipts (constructor d) ts"
  from tally_counts_voters [of d ts]
  have t: "set (voters p ?rs) = {v. hasVoted ?s p v}" "distinct (voters p ?rs)"
    "unat (yesVotes (proposals ?s p)) + unat (noVotes (proposals ?s p)) = length (voters p ?rs)"
    by blast+
  from t(2) have c: "card (set (voters p ?rs)) = length (voters p ?rs)"
    by (rule distinct_card)
  have f: "\<forall>q. proposalCounter ?s < q \<longrightarrow> id_field (proposals ?s q) = 0"
    using untouched [of d ts] by blast
  have frozen: "(\<forall>e b v. vote ?s e p b v = Inl ProposalNotActive)
        \<and> (\<forall>ts'. voters p (receipts ?s ts') = []
               \<and> yesVotes (proposals (run ?s ts') p) = yesVotes (proposals ?s p)
               \<and> noVotes (proposals (run ?s ts') p) = noVotes (proposals ?s p)
               \<and> status (proposals (run ?s ts') p) = status (proposals ?s p))"
    if ex: "id_field (proposals ?s p) \<noteq> 0" and na: "status (proposals ?s p) \<noteq> Active"
  proof -
    from ex na have "\<forall>e b v. vote ?s e p b v = Inl ProposalNotActive"
      by (simp add: vote_def proposalExists_def proposalActive_def)
    with frozen_run [OF ex na f] show ?thesis by blast
  qed
  from t c frozen show ?thesis by simp
qed

text \<open>One yes, one no, declined on the tie; a third vote is rejected.\<close>

theorem tallies_count_distinct_voters_witness:
  "unat (yesVotes (proposals (run (constructor admin) tied_trace) 1))
     + unat (noVotes (proposals (run (constructor admin) tied_trace) 1)) = 2
   \<and> card (set (voters 1 (receipts (constructor admin) tied_trace))) = 2
   \<and> id_field (proposals (run (constructor admin) tied_trace) 1) \<noteq> 0
   \<and> status (proposals (run (constructor admin) tied_trace) 1) \<noteq> Active
   \<and> vote (run (constructor admin) tied_trace) (tx admin 0 150) 1 True admin = Inl ProposalNotActive
   \<and> yesVotes (proposals (run (run (constructor admin) tied_trace)
                              [(tx admin 0 150, Vote 1 True admin)]) 1) = 1"
proof -
  have a: "id_field (proposals (run (constructor admin) tied_trace) 1) \<noteq> 0"
    and b: "status (proposals (run (constructor admin) tied_trace) 1) \<noteq> Active"
    and y: "yesVotes (proposals (run (constructor admin) tied_trace) 1) = 1"
    and n: "noVotes (proposals (run (constructor admin) tied_trace) 1) = 1"
    using tied_facts by (simp_all add: tied_def)
  note t = tallies_count_distinct_voters [of admin tied_trace 1]
  from t have "unat (yesVotes (proposals (run (constructor admin) tied_trace) 1))
     + unat (noVotes (proposals (run (constructor admin) tied_trace) 1))
     = card (set (voters 1 (receipts (constructor admin) tied_trace)))"
    by blast
  with y n have c: "card (set (voters 1 (receipts (constructor admin) tied_trace))) = 2"
    by simp
  from t a b
  have v: "vote (run (constructor admin) tied_trace) (tx admin 0 150) 1 True admin
             = Inl ProposalNotActive"
    by blast
  from t a b
  have "yesVotes (proposals (run (run (constructor admin) tied_trace)
                              [(tx admin 0 150, Vote 1 True admin)]) 1)
          = yesVotes (proposals (run (constructor admin) tied_trace) 1)"
    by blast
  with y have r: "yesVotes (proposals (run (run (constructor admin) tied_trace)
                              [(tx admin 0 150, Vote 1 True admin)]) 1) = 1"
    by simp
  from a b y n c v r show ?thesis
    by (simp del: run.simps)
qed

section \<open>Proposal identifiers\<close>

text \<open>
  Claim C7. Whatever transactions are sent to the contract after its deployment, the
  identifiers returned by the successful \<open>createProposal\<close> calls are 1, 2, 3, ... in this
  order (so strictly increasing and never reused), and \<open>getTotalProposals\<close> is the number
  of successful \<open>createProposal\<close> calls.
\<close>

theorem createProposal_ids_count_up:
  "map unat (created_ids (receipts (constructor d) ts))
     = [1..<Suc (length (created_ids (receipts (constructor d) ts)))]
   \<and> sorted_wrt (<) (created_ids (receipts (constructor d) ts))
   \<and> distinct (created_ids (receipts (constructor d) ts))
   \<and> unat (getTotalProposals (run (constructor d) ts))
       = length (created_ids (receipts (constructor d) ts))"
  using counter_counts [of d ts]
    strictly_increasing [of "created_ids (receipts (constructor d) ts)"
      "length (created_ids (receipts (constructor d) ts))"]
  by (simp add: getTotalProposals_def)

text \<open>Four creations, one of them rejected for its deadline, and a vote in between.\<close>

theorem createProposal_ids_count_up_witness:
  "created_ids (receipts (constructor admin) three_created_trace) = [1, 2, 3]
   \<and> unat (getTotalProposals (run (constructor admin) three_created_trace)) = 3
   \<and> sorted_wrt (<) (created_ids (receipts (constructor admin) three_created_trace))"
  using createProposal_ids_count_up [of admin three_created_trace]
  by (simp add: three_created_facts)

section \<open>Donations\<close>

text \<open>
  Claim C8. A donation to a proposal whose \<open>fundingEnabled\<close> is false is rejected and
  leaves the storage unchanged. In every reachable state, the donation list of a proposal is
  the list of its successful donations in order, the running total of a donor is the sum of
  that donor's amounts, and \<open>totalFundsRaised\<close> plus the amounts withdrawn is the sum of
  the donated amounts; so, as long as nothing was withdrawn, \<open>totalFundsRaised\<close> is the sum
  of the donated amounts.
\<close>

theorem donations_add_up:
  "(\<not> fundingEnabled (proposals s0 p) \<longrightarrow>
       (\<exists>err. donateToProposal s0 e p = Inl err) \<and> transact s0 (e, DonateToProposal p) = s0)
   \<and> proposalDonations (run (constructor d) ts) p = donations p (receipts (constructor d) ts)
   \<and> unat (userDonationTotal (run (constructor d) ts) p a)
       = total (map amount (filter (\<lambda>x. donor x = a) (donations p (receipts (constructor d) ts))))
   \<and> unat (totalFundsRaised (proposals (run (constructor d) ts) p))
        + total (withdrawals p (receipts (constructor d) ts))
       = total (map amount (donations p (receipts (constructor d) ts)))
   \<and> (withdrawals p (receipts (constructor d) ts) = [] \<longrightarrow>
        unat (totalFundsRaised (proposals (run (constructor d) ts) p))
          = total (map amount (donations p (receipts (constructor d) ts))))"
proof -
  have rejected:
    "(\<exists>err. donateToProposal s0 e p = Inl err) \<and> transact s0 (e, DonateToProposal p) = s0"
    if "\<not> fundingEnabled (proposals s0 p)"
    using that by (simp add: donateToProposal_def no_value_def)
  from donations_accounted [of d ts]
  have acc: "proposalDonations (run (constructor d) ts) p = donations p (receipts (constructor d) ts)"
    "unat (userDonationTotal (run (constructor d) ts) p a)
       = total (map amount (filter (\<lambda>x. donor x = a) (donations p (receipts (constructor d) ts))))"
    "unat (totalFundsRaised (proposals (run (constructor d) ts) p))
        + total (withdrawals p (receipts (constructor d) ts))
       = total (map amount (donations p (receipts (constructor d) ts)))"
    by blast+
  from acc(3)
  have "unat (totalFundsRaised (proposals (run (constructor d) ts) p))
          = total (map amount (donations p (receipts (constructor d) ts)))"
    if "withdrawals p (receipts (constructor d) ts) = []"
    using that by (simp add: total_simps)
  with rejected acc show ?thesis by blast
qed

text \<open>A donation before acceptance; two donations of 400 after it.\<close>

theorem donations_add_up_witness:
  "\<not> fundingEnabled (proposals voted_once 1)
   \<and> donateToProposal voted_once (tx bob 400 160) 1 = Inl ProposalNotAccepted
   \<and> transact voted_once (tx bob 400 160, DonateToProposal 1) = voted_once
   \<and> withdrawals 1 (receipts (constructor admin) funded_trace) = []
   \<and> unat (totalFundsRaised (proposals (run (constructor admin) funded_trace) 1)) = 400 + 400
   \<and> proposalDonations (run (constructor admin) funded_trace) 1
       = [\<lparr>donor = alice, amount = 400, timestamp = 120\<rparr>,
          \<lparr>donor = bob, amount = 400, timestamp = 130\<rparr>]
   \<and> unat (userDonationTotal (run (constructor admin) funded_trace) 1 alice) = 400"
proof -
  have a: "\<not> fundingEnabled (proposals voted_once 1)"
    by (simp add: voted_once_facts)
  have b: "donateToProposal voted_once (tx bob 400 160) 1 = Inl ProposalNotAccepted"
    by (simp add: donateToProposal_def proposalExists_def voted_once_facts)
  have w: "withdrawals 1 (receipts (constructor admin) funded_trace) = []"
    by (simp add: funded_facts)
  from a b w donations_add_up [of voted_once 1 "tx bob 400 160" admin funded_trace alice]
  show ?thesis
    by (simp add: funded_facts total_simps alice_def bob_def del: transact.simps)
qed

section \<open>Donation progress\<close>

text \<open>
  Claim C9 says that \<open>getDonationProgress\<close> returns \<open>floor(raised * 100 / goal)\<close> for
  every existing proposal with a positive goal. The product \<open>raised * 100\<close> is computed in
  256 bits with checked arithmetic: after a donation of \<open>2 ^ 255\<close> to a proposal with goal
  1 the call reverts.
\<close>

theorem getDonationProgress_overflow:
  "id_field (proposals huge_donation 1) \<noteq> 0
   \<and> 0 < fundingGoal (proposals huge_donation 1)
   \<and> getDonationProgress huge_donation 1 = Inl ArithmeticPanic"
  by (simp add: getDonationProgress_def proposalExists_def checked_mul_def huge_donation_facts)

text \<open>
  Claim C9, amended. For an existing proposal, \<open>getDonationProgress\<close> returns
  \<open>(totalFundsRaised, fundingGoal, percentage)\<close> with percentage 0 when the goal is 0,
  whatever was raised, and \<open>floor(raised * 100 / goal)\<close> when the goal is positive and
  \<open>raised * 100 < 2 ^ 256\<close>; when the goal is positive and \<open>raised * 100\<close> does not fit
  in 256 bits, it reverts. It is a view: it takes the storage and returns no storage.
\<close>

theorem getDonationProgress_percentage:
  assumes "id_field (proposals s p) \<noteq> 0"
  shows "(fundingGoal (proposals s p) = 0 \<longrightarrow>
            getDonationProgress s p = Inr (totalFundsRaised (proposals s p), 0, 0))
       \<and> (0 < fundingGoal (proposals s p)
            \<and> unat (totalFundsRaised (proposals s p)) * 100 < 2 ^ 256 \<longrightarrow>
            (\<exists>pct. getDonationProgress s p
                      = Inr (totalFundsRaised (proposals s p), fundingGoal (proposals s p), pct)
               \<and> unat pct = unat (totalFundsRaised (proposals s p)) * 100
                              div unat (fundingGoal (proposals s p))))
       \<and> (0 < fundingGoal (proposals s p)
            \<and> 2 ^ 256 \<le> unat (totalFundsRaised (proposals s p)) * 100 \<longrightarrow>
            getDonationProgress s p = Inl ArithmeticPanic)"
  using assms
  by (simp add: getDonationProgress_def proposalExists_def Let_def checked_mul_def
      word_greater_zero_iff unat_div unat_word_ariths)

text \<open>800 raised of 1000; goal 0; and the donation of \<open>2 ^ 255\<close>.\<close>

theorem getDonationProgress_percentage_witness:
  "id_field (proposals funded 1) \<noteq> 0
   \<and> 0 < fundingGoal (proposals funded 1)
   \<and> unat (totalFundsRaised (proposals funded 1)) * 100 < 2 ^ 256
   \<and> getDonationProgress funded 1 = Inr (800, 1000, 80)
   \<and> id_field (proposals accepted_without_goal 1) \<noteq> 0
   \<and> fundingGoal (proposals accepted_without_goal 1) = 0
   \<and> getDonationProgress accepted_without_goal 1 = Inr (0, 0, 0)
   \<and> 0 < fundingGoal (proposals huge_donation 1)
   \<and> 2 ^ 256 \<le> unat (totalFundsRaised (proposals huge_donation 1)) * 100
   \<and> getDonationProgress huge_donation 1 = Inl ArithmeticPanic"
proof -
  have h1: "id_field (proposals funded 1) \<noteq> 0"
    and h2: "id_field (proposals accepted_without_goal 1) \<noteq> 0"
    and h3: "id_field (proposals huge_donation 1) \<noteq> 0"
    by (simp_all add: funded_facts accepted_without_goal_facts huge_donation_facts)
  have g: "0 < fundingGoal (proposals funded 1)"
    "unat (totalFundsRaised (proposals funded 1)) * 100 < 2 ^ 256"
    "fundingGoal (proposals accepted_without_goal 1) = 0"
    "0 < fundingGoal (proposals huge_donation 1)"
    "2 ^ 256 \<le> unat (totalFundsRaised (proposals huge_donation 1)) * 100"
    by (simp_all add: funded_facts accepted_without_goal_facts huge_donation_facts)
  from getDonationProgress_percentage [OF h1] g(1,2)
  obtain pct where p: "getDonationProgress funded 1 = Inr (800, 1000, pct)"
    and q: "unat pct = unat (800 :: u256) * 100 div unat (1000 :: u256)"
    by (auto simp: funded_facts)
  from q have "unat pct = unat (80 :: u256)" by simp
  then have "pct = 80" by (simp only: word_unat_eq_iff)
  with p h1 h2 h3 g getDonationProgress_percentage [OF h2] getDonationProgress_percentage [OF h3]
  show ?thesis
    by (simp add: accepted_without_goal_facts)
qed

section \<open>Forcing a proposal to stay active\<close>

text \<open>
  Claim C10. \<open>forceCloseProposal\<close> accepts \<open>Active\<close> as its target: called by the owner
  on an existing active proposal it succeeds and changes nothing, so the status is still
  \<open>Active\<close> and \<open>fundingEnabled\<close> is what it was. The proposal is not closed: votes are
  treated as before (never rejected for the proposal being inactive), the owner can force
  it again to any status, and can resolve it once the deadline has passed.
\<close>

theorem forceCloseProposal_Active_is_not_terminal:
  assumes "msg_sender e = owner s"
    and "id_field (proposals s p) \<noteq> 0"
    and "status (proposals s p) = Active"
  shows "\<exists>s'. forceCloseProposal s e p Active = Inr s'
           \<and> status (proposals s' p) = Active
           \<and> fundingEnabled (proposals s' p) = fundingEnabled (proposals s p)
           \<and> s' = s
           \<and> (\<forall>e' b v. vote s' e' p b v = vote s e' p b v)
           \<and> (\<forall>e' b v. vote s' e' p b v \<noteq> Inl ProposalNotActive)
           \<and> (\<forall>st. \<exists>s''. forceCloseProposal s' e p st = Inr s'' \<and> status (proposals s'' p) = st)
           \<and> (\<forall>e'. msg_sender e' = owner s' \<and> endDate (proposals s' p) < block_timestamp e'
                 \<longrightarrow> (\<exists>s''. updateProposalStatus s' e' p = Inr s''))"
proof -
  have "forceCloseProposal s e p Active = Inr s"
    using assms
    by (simp add: forceCloseProposal_def onlyOwner_def proposalExists_def proposalActive_def
        status_update_same)
  moreover have "\<forall>e' b v. vote s e' p b v \<noteq> Inl ProposalNotActive"
    using assms
    by (simp add: vote_def proposalExists_def proposalActive_def Let_def split: option.splits)
  moreover have "\<forall>st. \<exists>s''. forceCloseProposal s e p st = Inr s'' \<and> status (proposals s'' p) = st"
    using assms
    by (simp add: forceCloseProposal_def onlyOwner_def proposalExists_def proposalActive_def
        Let_def)
  moreover have "\<forall>e'. msg_sender e' = owner s \<and> endDate (proposals s p) < block_timestamp e'
                 \<longrightarrow> (\<exists>s''. updateProposalStatus s e' p = Inr s'')"
    using assms
    by (simp add: updateProposalStatus_def onlyOwner_def proposalExists_def proposalActive_def
        Let_def split: prod.splits)
  ultimately show ?thesis using assms(3) by simp
qed

text \<open>Forced to \<open>Active\<close>, then a second yes vote, then accepted at the deadline.\<close>

theorem forceCloseProposal_Active_is_not_terminal_witness:
  "msg_sender (tx admin 0 160) = owner voted_once
   \<and> id_field (proposals voted_once 1) \<noteq> 0
   \<and> status (proposals voted_once 1) = Active
   \<and> forceCloseProposal voted_once (tx admin 0 160) 1 Active = Inr voted_once
   \<and> (\<exists>s1 s2 s3. forceCloseProposal voted_once (tx admin 0 160) 1 Active = Inr s1
         \<and> vote s1 (tx bob 0 170) 1 True bob = Inr s2
         \<and> yesVotes (proposals s2 1) = 2
         \<and> updateProposalStatus s2 (tx admin 0 201) 1 = Inr s3
         \<and> status (proposals s3 1) = Accepted)"
proof -
  have h1: "msg_sender (tx admin 0 160) = owner voted_once"
    by (simp add: voted_once_facts tx_def)
  have h2: "id_field (proposals voted_once 1) \<noteq> 0"
    by (simp add: voted_once_facts)
  have h3: "status (proposals voted_once 1) = Active"
    by (simp add: voted_once_facts)
  from forceCloseProposal_Active_is_not_terminal [OF h1 h2 h3]
  have a: "forceCloseProposal voted_once (tx admin 0 160) 1 Active = Inr voted_once"
    by auto
  have b: "\<exists>s2 s3. vote voted_once (tx bob 0 170) 1 True bob = Inr s2
         \<and> yesVotes (proposals s2 1) = 2
         \<and> updateProposalStatus s2 (tx admin 0 201) 1 = Inr s3
         \<and> status (proposals s3 1) = Accepted"
    by (simp add: op_defs actor_defs voted_once_trace_def voted_once_def)
  from h1 h2 h3 a b show ?thesis by simp
qed

end
